theory Spec2Isabelle
  imports Main "HOL-Library.Word"
begin

unbundle bit_operations_syntax

section \<open>Machine integers\<close>

text \<open>
  The register type \<open>T = uint<WIDTH>\<close> of the library is one of \<open>uint8\<close>, \<open>uint16\<close>,
  \<open>uint32\<close>, \<open>uint64\<close>. It is modelled by \<open>'a word\<close>, the template parameter \<open>WIDTH\<close>
  by \<open>LENGTH('a)\<close>. Arithmetic of the narrow types is done by C++ in \<open>int\<close> and
  truncated when the result is stored back into a \<open>T\<close>; on words the truncation is part of
  \<open>push_bit\<close>, so \<open>push_bit\<close>, \<open>drop_bit\<close>, \<open>AND\<close>, \<open>OR\<close>, \<open>XOR\<close> on \<open>'a word\<close> give
  the stored value.
\<close>

type_synonym uint8 = "8 word"
type_synonym uint16 = "16 word"
type_synonym uint32 = "32 word"
type_synonym uint64 = "64 word"

section \<open>Bit reversal (parametric\_crc.h)\<close>

definition reverse_bits64 :: "uint64 \<Rightarrow> uint64" where
  "reverse_bits64 v0 =
    (let v = (drop_bit 1 v0 AND 0x5555555555555555) OR push_bit 1 (v0 AND 0x5555555555555555);
         v = (drop_bit 2 v AND 0x3333333333333333) OR push_bit 2 (v AND 0x3333333333333333);
         v = (drop_bit 4 v AND 0x0F0F0F0F0F0F0F0F) OR push_bit 4 (v AND 0x0F0F0F0F0F0F0F0F);
         v = (drop_bit 8 v AND 0x00FF00FF00FF00FF) OR push_bit 8 (v AND 0x00FF00FF00FF00FF);
         v = (drop_bit 16 v AND 0x0000FFFF0000FFFF) OR push_bit 16 (v AND 0x0000FFFF0000FFFF);
         v = drop_bit 32 v OR push_bit 32 v
     in v)"

definition reverse_bits32 :: "uint32 \<Rightarrow> uint32" where
  "reverse_bits32 v0 =
    (let v = (drop_bit 1 v0 AND 0x55555555) OR push_bit 1 (v0 AND 0x55555555);
         v = (drop_bit 2 v AND 0x33333333) OR push_bit 2 (v AND 0x33333333);
         v = (drop_bit 4 v AND 0x0F0F0F0F) OR push_bit 4 (v AND 0x0F0F0F0F);
         v = (drop_bit 8 v AND 0x00FF00FF) OR push_bit 8 (v AND 0x00FF00FF);
         v = drop_bit 16 v OR push_bit 16 v
     in v)"

definition reverse_bits16 :: "uint16 \<Rightarrow> uint16" where
  "reverse_bits16 v0 =
    (let v = (drop_bit 1 v0 AND 0x5555) OR push_bit 1 (v0 AND 0x5555);
         v = (drop_bit 2 v AND 0x3333) OR push_bit 2 (v AND 0x3333);
         v = (drop_bit 4 v AND 0x0F0F) OR push_bit 4 (v AND 0x0F0F);
         v = drop_bit 8 v OR push_bit 8 v
     in v)"

text \<open>
  The default build (neither \<open>PARAMETRIC_CRC_NO_REVERSE_BITS_LOOKUP_TABLE\<close> nor
  \<open>PARAMETRIC_CRC_REVERSE_BITS_NIBBLE_LOOKUP_TABLE\<close> defined) reverses a byte through a
  table of 256 entries. \<open>reverse_bits_entry\<close> is the body of the constructor's loop,
  \<open>reverse_bits_lookup_table\<close> the loop over \<open>i = 0 .. 0xff\<close> on the zero-filled array.
  The mini header declares the same table and the same byte function.
\<close>

definition reverse_bits_entry :: "nat \<Rightarrow> uint8" where
  "reverse_bits_entry i =
    (let v = (word_of_nat i :: uint8);
         v = (drop_bit 1 v AND 0x55) OR push_bit 1 (v AND 0x55);
         v = (drop_bit 2 v AND 0x33) OR push_bit 2 (v AND 0x33)
     in drop_bit 4 v OR push_bit 4 v)"

definition reverse_bits_lookup_table :: "uint8 list" where
  "reverse_bits_lookup_table =
     fold (\<lambda>i entries. entries[i := reverse_bits_entry i]) [0..<256] (replicate 256 0)"

definition reverse_bits8 :: "uint8 \<Rightarrow> uint8" where
  "reverse_bits8 v = reverse_bits_lookup_table ! unat v"

text \<open>
  \<open>reverse_bits\<close> is an overloaded function: the compiler picks the body by the type of
  the argument. Here the choice is made on the width of the word; the casts are
  identities at the width they are used at.
\<close>

definition reverse_bits :: "'a::len word \<Rightarrow> 'a word" where
  "reverse_bits v =
    (if LENGTH('a) = 8 then ucast (reverse_bits8 (ucast v))
     else if LENGTH('a) = 16 then ucast (reverse_bits16 (ucast v))
     else if LENGTH('a) = 32 then ucast (reverse_bits32 (ucast v))
     else ucast (reverse_bits64 (ucast v)))"

definition conditional_reflect :: "bool \<Rightarrow> 'a::len word \<Rightarrow> 'a word" where
  "conditional_reflect CONDITION v = (if CONDITION then reverse_bits v else v)"

section \<open>The per-byte table step\<close>

text \<open>
  \<open>table_based_crc_updater<T, REF, IS_UINT8>::update\<close>. A table is anything with an
  \<open>operator[](uint8)\<close>; it is passed as its indexing function. The index expression is
  computed in \<open>T\<close> (or \<open>int\<close>) and converted to \<open>uint8\<close> at the call.
\<close>

definition table_based_crc_updater ::
  "bool \<Rightarrow> 'a::len word \<Rightarrow> uint8 \<Rightarrow> (uint8 \<Rightarrow> 'a word) \<Rightarrow> 'a word" where
  "table_based_crc_updater REF crc b table =
    (if LENGTH('a) = 8 then table (ucast (crc XOR ucast b))
     else if REF then table (ucast ((crc AND 0xff) XOR ucast b)) XOR drop_bit 8 crc
     else table (ucast (drop_bit (LENGTH('a) - 8) crc XOR ucast b)) XOR push_bit 8 crc)"

section \<open>core<WIDTH, false>: unreflected shift register\<close>

definition MSB_MASK :: "'a::len word" where
  "MSB_MASK = push_bit (LENGTH('a) - 1) 1"

text \<open>The \<open>for\<close> loop of \<open>bbb_update\<close> and \<open>bbb_update_wide\<close>, by the number of
  iterations left.\<close>

primrec bbb_loop_unreflected :: "nat \<Rightarrow> 'a::len word \<Rightarrow> 'a word \<Rightarrow> 'a word" where
  "bbb_loop_unreflected 0 poly crc = crc"
| "bbb_loop_unreflected (Suc n) poly crc =
     bbb_loop_unreflected n poly
       (if crc AND MSB_MASK \<noteq> 0 then push_bit 1 crc XOR poly else push_bit 1 crc)"

definition bbb_update_unreflected :: "'a::len word \<Rightarrow> 'a word \<Rightarrow> uint8 \<Rightarrow> uint8 \<Rightarrow> 'a word" where
  "bbb_update_unreflected poly crc b num_bits =
     bbb_loop_unreflected (unat num_bits) poly (crc XOR push_bit (LENGTH('a) - 8) (ucast b))"

definition bbb_update_wide_unreflected :: "'a::len word \<Rightarrow> 'a word \<Rightarrow> 'a word \<Rightarrow> 'a word" where
  "bbb_update_wide_unreflected poly crc b = bbb_loop_unreflected LENGTH('a) poly (crc XOR b)"

definition tableless_update_unreflected :: "'a::len word \<Rightarrow> 'a word \<Rightarrow> uint8 list \<Rightarrow> 'a word" where
  "tableless_update_unreflected poly crc bytes =
     fold (\<lambda>p crc. bbb_update_unreflected poly crc p 8) bytes crc"

definition table_entry_unreflected :: "'a::len word \<Rightarrow> uint8 \<Rightarrow> uint8 \<Rightarrow> 'a word" where
  "table_entry_unreflected poly index skip_bits =
     bbb_update_unreflected poly 0 (push_bit (unat skip_bits) index) (8 - skip_bits)"

text \<open>
  \<open>generate_table\<close> (the default generator, \<open>PARAMETRIC_CRC_SIMPLE_TABLE_GENERATOR\<close> not
  defined). The array is a list of 256 entries that is passed in and returned. The inner
  loop over \<open>i = 1 .. 0xf\<close> is a fold over that range; the \<open>do ... while (k < 0xf0)\<close> loop
  is the recursion \<open>generate_table_rows\<close> on the value of \<open>k\<close> at the start of the body.
\<close>

definition generate_table_row :: "uint8 \<Rightarrow> 'a::len word list \<Rightarrow> 'a word list" where
  "generate_table_row k entries =
     fold (\<lambda>i entries.
             entries[unat (k XOR word_of_nat i) := entries ! unat k XOR entries ! i])
          [1..<16] entries"

function generate_table_rows_unreflected ::
  "'a::len word \<Rightarrow> uint8 \<Rightarrow> 'a word list \<Rightarrow> 'a word list" where
  "generate_table_rows_unreflected poly k0 entries =
    (if k0 + 0x10 < 0xf0
     then generate_table_rows_unreflected poly (k0 + 0x10)
            (generate_table_row (k0 + 0x10)
               (entries[unat (k0 + 0x10) := table_entry_unreflected poly (k0 + 0x10) 0]))
     else generate_table_row (k0 + 0x10)
            (entries[unat (k0 + 0x10) := table_entry_unreflected poly (k0 + 0x10) 0]))"
  by pat_completeness auto
termination
proof (relation "measure (\<lambda>(poly, k0, entries). 256 - unat (k0 + 0x10))")
  show "wf (measure (\<lambda>(poly :: 'a word, k0 :: uint8, entries :: 'a word list).
                       256 - unat (k0 + 0x10)))"
    by simp
next
  fix poly :: "'a word" and k0 :: uint8 and entries :: "'a word list"
  define k where "k = k0 + 0x10"
  assume "k0 + 0x10 < 0xf0"
  then have "unat k < 240"
    by (simp add: word_less_nat_alt k_def)
  then have "unat (k + 0x10) = unat k + 16"
    by (simp add: unat_word_ariths)
  with \<open>unat k < 240\<close> have "256 - unat (k + 0x10) < 256 - unat k"
    by simp
  then show "((poly, k0 + 0x10,
               generate_table_row (k0 + 0x10)
                 (entries[unat (k0 + 0x10) := table_entry_unreflected poly (k0 + 0x10) 0])),
              (poly, k0, entries))
             \<in> measure (\<lambda>(poly, k0, entries). 256 - unat (k0 + 0x10))"
    by (simp add: k_def)
qed

definition generate_table_unreflected :: "'a::len word \<Rightarrow> 'a word list \<Rightarrow> 'a word list" where
  "generate_table_unreflected poly entries =
     generate_table_rows_unreflected poly 0
       (fold (\<lambda>i entries. entries[i := table_entry_unreflected poly (word_of_nat i) 4])
          [1..<16] (entries[0 := 0]))"

definition generate_small_table_unreflected ::
  "'a::len word \<Rightarrow> 'a word list \<Rightarrow> 'a word list \<Rightarrow> 'a word list \<times> 'a word list" where
  "generate_small_table_unreflected poly first_row first_column =
     (fold (\<lambda>i first_row. first_row[i := table_entry_unreflected poly (word_of_nat i) 4])
        [1..<16] (first_row[0 := 0]),
      fold (\<lambda>k first_column.
              first_column[k := table_entry_unreflected poly (push_bit 4 (word_of_nat k)) 0])
        [1..<16] (first_column[0 := 0]))"

section \<open>core<WIDTH, true>: reflected shift register\<close>

primrec bbb_loop_reflected :: "nat \<Rightarrow> 'a::len word \<Rightarrow> 'a word \<Rightarrow> 'a word" where
  "bbb_loop_reflected 0 ref_poly crc = crc"
| "bbb_loop_reflected (Suc n) ref_poly crc =
     bbb_loop_reflected n ref_poly
       (if crc AND 1 \<noteq> 0 then drop_bit 1 crc XOR ref_poly else drop_bit 1 crc)"

definition bbb_update_reflected :: "'a::len word \<Rightarrow> 'a word \<Rightarrow> uint8 \<Rightarrow> uint8 \<Rightarrow> 'a word" where
  "bbb_update_reflected ref_poly crc b num_bits =
     bbb_loop_reflected (unat num_bits) ref_poly (crc XOR ucast b)"

definition bbb_update_wide_reflected :: "'a::len word \<Rightarrow> 'a word \<Rightarrow> 'a word \<Rightarrow> 'a word" where
  "bbb_update_wide_reflected ref_poly crc b = bbb_loop_reflected LENGTH('a) ref_poly (crc XOR b)"

definition tableless_update_reflected :: "'a::len word \<Rightarrow> 'a word \<Rightarrow> uint8 list \<Rightarrow> 'a word" where
  "tableless_update_reflected ref_poly crc bytes =
     fold (\<lambda>p crc. bbb_update_reflected ref_poly crc p 8) bytes crc"

definition table_entry_reflected :: "'a::len word \<Rightarrow> uint8 \<Rightarrow> uint8 \<Rightarrow> 'a word" where
  "table_entry_reflected ref_poly index skip_bits =
     bbb_update_reflected ref_poly 0 (drop_bit (unat skip_bits) index) (8 - skip_bits)"

function generate_table_rows_reflected ::
  "'a::len word \<Rightarrow> uint8 \<Rightarrow> 'a word list \<Rightarrow> 'a word list" where
  "generate_table_rows_reflected ref_poly k0 entries =
    (if k0 + 0x10 < 0xf0
     then generate_table_rows_reflected ref_poly (k0 + 0x10)
            (generate_table_row (k0 + 0x10)
               (entries[unat (k0 + 0x10) := table_entry_reflected ref_poly (k0 + 0x10) 4]))
     else generate_table_row (k0 + 0x10)
            (entries[unat (k0 + 0x10) := table_entry_reflected ref_poly (k0 + 0x10) 4]))"
  by pat_completeness auto
termination
proof (relation "measure (\<lambda>(ref_poly, k0, entries). 256 - unat (k0 + 0x10))")
  show "wf (measure (\<lambda>(ref_poly :: 'a word, k0 :: uint8, entries :: 'a word list).
                       256 - unat (k0 + 0x10)))"
    by simp
next
  fix ref_poly :: "'a word" and k0 :: uint8 and entries :: "'a word list"
  define k where "k = k0 + 0x10"
  assume "k0 + 0x10 < 0xf0"
  then have "unat k < 240"
    by (simp add: word_less_nat_alt k_def)
  then have "unat (k + 0x10) = unat k + 16"
    by (simp add: unat_word_ariths)
  with \<open>unat k < 240\<close> have "256 - unat (k + 0x10) < 256 - unat k"
    by simp
  then show "((ref_poly, k0 + 0x10,
               generate_table_row (k0 + 0x10)
                 (entries[unat (k0 + 0x10) := table_entry_reflected ref_poly (k0 + 0x10) 4])),
              (ref_poly, k0, entries))
             \<in> measure (\<lambda>(ref_poly, k0, entries). 256 - unat (k0 + 0x10))"
    by (simp add: k_def)
qed

definition generate_table_reflected :: "'a::len word \<Rightarrow> 'a word list \<Rightarrow> 'a word list" where
  "generate_table_reflected ref_poly entries =
     generate_table_rows_reflected ref_poly 0
       (fold (\<lambda>i entries. entries[i := table_entry_reflected ref_poly (word_of_nat i) 0])
          [1..<16] (entries[0 := 0]))"

definition generate_small_table_reflected ::
  "'a::len word \<Rightarrow> 'a word list \<Rightarrow> 'a word list \<Rightarrow> 'a word list \<times> 'a word list" where
  "generate_small_table_reflected ref_poly first_row first_column =
     (fold (\<lambda>i first_row. first_row[i := table_entry_reflected ref_poly (word_of_nat i) 0])
        [1..<16] (first_row[0 := 0]),
      fold (\<lambda>k first_column.
              first_column[k := table_entry_reflected ref_poly (push_bit 4 (word_of_nat k)) 4])
        [1..<16] (first_column[0 := 0]))"

section \<open>core<WIDTH, REFLECTED>: selection by the template parameter\<close>

definition core_bbb_update_wide :: "bool \<Rightarrow> 'a::len word \<Rightarrow> 'a word \<Rightarrow> 'a word \<Rightarrow> 'a word" where
  "core_bbb_update_wide REFLECTED poly crc b =
    (if REFLECTED then bbb_update_wide_reflected poly crc b
     else bbb_update_wide_unreflected poly crc b)"

definition core_tableless_update :: "bool \<Rightarrow> 'a::len word \<Rightarrow> 'a word \<Rightarrow> uint8 list \<Rightarrow> 'a word" where
  "core_tableless_update REFLECTED poly crc bytes =
    (if REFLECTED then tableless_update_reflected poly crc bytes
     else tableless_update_unreflected poly crc bytes)"

definition core_table_based_update ::
  "bool \<Rightarrow> 'a::len word \<Rightarrow> uint8 list \<Rightarrow> (uint8 \<Rightarrow> 'a word) \<Rightarrow> 'a word" where
  "core_table_based_update REFLECTED crc bytes table =
     fold (\<lambda>p crc. table_based_crc_updater REFLECTED crc p table) bytes crc"

definition core_generate_table :: "bool \<Rightarrow> 'a::len word \<Rightarrow> 'a word list \<Rightarrow> 'a word list" where
  "core_generate_table REFLECTED poly entries =
    (if REFLECTED then generate_table_reflected poly entries
     else generate_table_unreflected poly entries)"

definition core_generate_small_table ::
  "bool \<Rightarrow> 'a::len word \<Rightarrow> 'a word list \<Rightarrow> 'a word list \<Rightarrow> 'a word list \<times> 'a word list" where
  "core_generate_small_table REFLECTED poly first_row first_column =
    (if REFLECTED then generate_small_table_reflected poly first_row first_column
     else generate_small_table_unreflected poly first_row first_column)"

section \<open>Tables\<close>

record (overloaded) ('a::len) basic_table =
  entries :: "'a word list"

record (overloaded) ('a::len) basic_small_table =
  first_row :: "'a word list"
  first_column :: "'a word list"

text \<open>The two \<open>operator[](uint8 index)\<close>.\<close>

definition basic_table_index :: "'a::len basic_table \<Rightarrow> uint8 \<Rightarrow> 'a word" where
  "basic_table_index t index = entries t ! unat index"

definition basic_small_table_index :: "'a::len basic_small_table \<Rightarrow> uint8 \<Rightarrow> 'a word" where
  "basic_small_table_index t index =
     first_row t ! unat (index AND 0x0f) XOR first_column t ! unat (drop_bit 4 index)"

record (overloaded) ('a::len) tbl_cfg =
  TBL_POLY :: "'a word"
  TBL_REF_REG :: bool

definition TBL_ACTUAL_POLY :: "'a::len tbl_cfg \<Rightarrow> 'a word" where
  "TBL_ACTUAL_POLY c = conditional_reflect (TBL_REF_REG c) (TBL_POLY c)"

text \<open>
  \<open>table<TBL_CFG>::generate\<close> and \<open>small_table<TBL_CFG>::generate\<close> overwrite the arrays
  of an existing table; the default constructors zero-fill the arrays and call them.
  \<open>static_table<TABLE_TYPE>::instance\<close> is the default-constructed table.
\<close>

definition table_generate :: "'a::len tbl_cfg \<Rightarrow> 'a basic_table \<Rightarrow> 'a basic_table" where
  "table_generate c t =
     t\<lparr>entries := core_generate_table (TBL_REF_REG c) (TBL_ACTUAL_POLY c) (entries t)\<rparr>"

definition table :: "'a::len tbl_cfg \<Rightarrow> 'a basic_table" where
  "table c = table_generate c \<lparr>entries = replicate 256 0\<rparr>"

definition small_table_generate ::
  "'a::len tbl_cfg \<Rightarrow> 'a basic_small_table \<Rightarrow> 'a basic_small_table" where
  "small_table_generate c t =
    (case core_generate_small_table (TBL_REF_REG c) (TBL_ACTUAL_POLY c)
            (first_row t) (first_column t) of
       (r, col) \<Rightarrow> t\<lparr>first_row := r, first_column := col\<rparr>)"

definition small_table :: "'a::len tbl_cfg \<Rightarrow> 'a basic_small_table" where
  "small_table c =
     small_table_generate c \<lparr>first_row = replicate 16 0, first_column = replicate 16 0\<rparr>"

section \<open>The UPDATER plug-ins\<close>

definition updater_tableless :: "'a::len tbl_cfg \<Rightarrow> 'a word \<Rightarrow> uint8 list \<Rightarrow> 'a word" where
  "updater_tableless c crc bytes =
     core_tableless_update (TBL_REF_REG c) (TBL_ACTUAL_POLY c) crc bytes"

definition updater_table_based :: "'a::len tbl_cfg \<Rightarrow> 'a word \<Rightarrow> uint8 list \<Rightarrow> 'a word" where
  "updater_table_based c crc bytes =
     core_table_based_update (TBL_REF_REG c) crc bytes (basic_table_index (table c))"

definition updater_small_table_based :: "'a::len tbl_cfg \<Rightarrow> 'a word \<Rightarrow> uint8 list \<Rightarrow> 'a word" where
  "updater_small_table_based c crc bytes =
     core_table_based_update (TBL_REF_REG c) crc bytes (basic_small_table_index (small_table c))"

definition updater_ext_table_based ::
  "'a::len tbl_cfg \<Rightarrow> 'a word \<Rightarrow> uint8 list \<Rightarrow> 'a basic_table \<Rightarrow> 'a word" where
  "updater_ext_table_based c crc bytes t =
     core_table_based_update (TBL_REF_REG c) crc bytes (basic_table_index t)"

definition updater_ext_small_table_based ::
  "'a::len tbl_cfg \<Rightarrow> 'a word \<Rightarrow> uint8 list \<Rightarrow> 'a basic_small_table \<Rightarrow> 'a word" where
  "updater_ext_small_table_based c crc bytes t =
     core_table_based_update (TBL_REF_REG c) crc bytes (basic_small_table_index t)"

section \<open>The parameters of a CRC algorithm\<close>

record (overloaded) ('a::len) cfg =
  POLY :: "'a word"
  INIT :: "'a word"
  XOR_OUT :: "'a word"
  REF_IN :: bool
  REF_OUT :: bool
  REF_REG :: bool

definition ACTUAL_INIT :: "'a::len cfg \<Rightarrow> 'a word" where
  "ACTUAL_INIT c = conditional_reflect (REF_REG c) (INIT c)"

definition ACTUAL_POLY :: "'a::len cfg \<Rightarrow> 'a word" where
  "ACTUAL_POLY c = conditional_reflect (REF_REG c) (POLY c)"

definition TBL_CFG :: "'a::len cfg \<Rightarrow> 'a tbl_cfg" where
  "TBL_CFG c = \<lparr>TBL_POLY = POLY c, TBL_REF_REG = REF_REG c\<rparr>"

text \<open>The template \<open>crc::parametric<WIDTH, POLY, INIT, XOR_OUT, REF_IN>\<close> with the defaults
  \<open>REF_OUT = REF_IN\<close> and \<open>REF_REG = REF_IN\<close>.\<close>

definition parametric_cfg :: "'a::len word \<Rightarrow> 'a word \<Rightarrow> 'a word \<Rightarrow> bool \<Rightarrow> 'a cfg" where
  "parametric_cfg poly init xor_out ref_in =
     \<lparr>POLY = poly, INIT = init, XOR_OUT = xor_out,
      REF_IN = ref_in, REF_OUT = ref_in, REF_REG = ref_in\<rparr>"

section \<open>The residue constant\<close>

definition residue_const :: "'a::len cfg \<Rightarrow> 'a word" where
  "residue_const c =
    (let residue = conditional_reflect (REF_REG c \<noteq> REF_OUT c) (XOR_OUT c);
         residue = core_bbb_update_wide (REF_REG c) (ACTUAL_POLY c) residue 0
     in conditional_reflect (REF_REG c \<noteq> REF_IN c) residue)"

definition RESIDUE :: "'a::len cfg \<Rightarrow> 'a word" where
  "RESIDUE c = residue_const c"

section \<open>impl: the modes without a table parameter\<close>

text \<open>
  \<open>impl_input_reverser<UPDATER, T, REVERSE>::update\<close>: with \<open>REVERSE\<close> every byte is
  reversed and handed to the plug-in as a range of one byte.
\<close>

definition impl_input_reverser ::
  "bool \<Rightarrow> ('a::len word \<Rightarrow> uint8 list \<Rightarrow> 'a word) \<Rightarrow> 'a word \<Rightarrow> uint8 list \<Rightarrow> 'a word" where
  "impl_input_reverser REVERSE UPDATER crc bytes =
    (if REVERSE then fold (\<lambda>p crc. UPDATER crc [reverse_bits8 p]) bytes crc
     else UPDATER crc bytes)"

text \<open>An object of class \<open>impl\<close> (and of \<open>impl_ext\<close>) has the single member \<open>_crc\<close>.\<close>

record (overloaded) ('a::len) impl =
  crc_reg :: "'a word"

definition impl_init :: "'a::len cfg \<Rightarrow> 'a impl" where
  "impl_init c = \<lparr>crc_reg = ACTUAL_INIT c\<rparr>"

definition impl_from_interim :: "'a::len word \<Rightarrow> 'a impl" where
  "impl_from_interim interim_remainder = \<lparr>crc_reg = interim_remainder\<rparr>"

definition impl_residue :: "'a::len cfg \<Rightarrow> 'a impl \<Rightarrow> 'a word" where
  "impl_residue c this = conditional_reflect (REF_REG c \<noteq> REF_OUT c) (crc_reg this)"

definition impl_final :: "'a::len cfg \<Rightarrow> 'a impl \<Rightarrow> 'a word" where
  "impl_final c this = impl_residue c this XOR XOR_OUT c"

definition impl_interim :: "'a::len impl \<Rightarrow> 'a word" where
  "impl_interim this = crc_reg this"

definition impl_update ::
  "'a::len cfg \<Rightarrow> ('a word \<Rightarrow> uint8 list \<Rightarrow> 'a word) \<Rightarrow> 'a impl \<Rightarrow> uint8 list \<Rightarrow> 'a impl" where
  "impl_update c UPDATER this bytes =
     this\<lparr>crc_reg := impl_input_reverser (REF_IN c \<noteq> REF_REG c) UPDATER (crc_reg this) bytes\<rparr>"

definition impl_update_byte ::
  "'a::len cfg \<Rightarrow> ('a word \<Rightarrow> uint8 list \<Rightarrow> 'a word) \<Rightarrow> 'a impl \<Rightarrow> uint8 \<Rightarrow> 'a impl" where
  "impl_update_byte c UPDATER this b =
     this\<lparr>crc_reg := impl_input_reverser (REF_IN c \<noteq> REF_REG c) UPDATER (crc_reg this) [b]\<rparr>"

definition impl_calculate ::
  "'a::len cfg \<Rightarrow> ('a word \<Rightarrow> uint8 list \<Rightarrow> 'a word) \<Rightarrow> uint8 list \<Rightarrow> 'a word" where
  "impl_calculate c UPDATER bytes = impl_final c (impl_update c UPDATER (impl_init c) bytes)"

section \<open>impl\_ext: the modes with an external table\<close>

definition impl_ext_input_reverser ::
  "bool \<Rightarrow> ('a::len word \<Rightarrow> uint8 list \<Rightarrow> 't \<Rightarrow> 'a word) \<Rightarrow> 'a word \<Rightarrow> uint8 list \<Rightarrow> 't \<Rightarrow> 'a word" where
  "impl_ext_input_reverser REVERSE UPDATER crc bytes t =
    (if REVERSE then fold (\<lambda>p crc. UPDATER crc [reverse_bits8 p] t) bytes crc
     else UPDATER crc bytes t)"

definition impl_ext_residue :: "'a::len cfg \<Rightarrow> 'a impl \<Rightarrow> 'a word" where
  "impl_ext_residue c this = conditional_reflect (REF_REG c \<noteq> REF_OUT c) (crc_reg this)"

definition impl_ext_final :: "'a::len cfg \<Rightarrow> 'a impl \<Rightarrow> 'a word" where
  "impl_ext_final c this = impl_ext_residue c this XOR XOR_OUT c"

definition impl_ext_interim :: "'a::len impl \<Rightarrow> 'a word" where
  "impl_ext_interim this = crc_reg this"

definition impl_ext_update ::
  "'a::len cfg \<Rightarrow> ('a word \<Rightarrow> uint8 list \<Rightarrow> 't \<Rightarrow> 'a word) \<Rightarrow> 'a impl \<Rightarrow> uint8 list \<Rightarrow> 't \<Rightarrow> 'a impl" where
  "impl_ext_update c UPDATER this bytes t =
     this\<lparr>crc_reg := impl_ext_input_reverser (REF_IN c \<noteq> REF_REG c) UPDATER (crc_reg this) bytes t\<rparr>"

definition impl_ext_calculate ::
  "'a::len cfg \<Rightarrow> ('a word \<Rightarrow> uint8 list \<Rightarrow> 't \<Rightarrow> 'a word) \<Rightarrow> uint8 list \<Rightarrow> 't \<Rightarrow> 'a word" where
  "impl_ext_calculate c UPDATER bytes t =
     impl_ext_final c (impl_ext_update c UPDATER (impl_init c) bytes t)"

section \<open>The five modes of crc::parametric\<close>

text \<open>The plug-in each mode hands to \<open>impl\<close> or \<open>impl_ext\<close>; \<open>table_based\<close> is the class
  \<open>parametric\<close> itself.\<close>

definition tableless :: "'a::len cfg \<Rightarrow> 'a word \<Rightarrow> uint8 list \<Rightarrow> 'a word" where
  "tableless c = updater_tableless (TBL_CFG c)"

definition table_based :: "'a::len cfg \<Rightarrow> 'a word \<Rightarrow> uint8 list \<Rightarrow> 'a word" where
  "table_based c = updater_table_based (TBL_CFG c)"

definition small_table_based :: "'a::len cfg \<Rightarrow> 'a word \<Rightarrow> uint8 list \<Rightarrow> 'a word" where
  "small_table_based c = updater_small_table_based (TBL_CFG c)"

definition ext_table_based ::
  "'a::len cfg \<Rightarrow> 'a word \<Rightarrow> uint8 list \<Rightarrow> 'a basic_table \<Rightarrow> 'a word" where
  "ext_table_based c = updater_ext_table_based (TBL_CFG c)"

definition ext_small_table_based ::
  "'a::len cfg \<Rightarrow> 'a word \<Rightarrow> uint8 list \<Rightarrow> 'a basic_small_table \<Rightarrow> 'a word" where
  "ext_small_table_based c = updater_ext_small_table_based (TBL_CFG c)"

section \<open>The mini library (parametric\_crc\_mini.h)\<close>

definition mini_reverse_bits16 :: "uint16 \<Rightarrow> uint16" where
  "mini_reverse_bits16 v =
     push_bit 8 (ucast (reverse_bits8 (ucast v))) OR ucast (reverse_bits8 (ucast (drop_bit 8 v)))"

definition mini_reverse_bits32 :: "uint32 \<Rightarrow> uint32" where
  "mini_reverse_bits32 v =
     push_bit 16 (ucast (mini_reverse_bits16 (ucast v)))
       OR ucast (mini_reverse_bits16 (ucast (drop_bit 16 v)))"

definition mini_reverse_bits64 :: "uint64 \<Rightarrow> uint64" where
  "mini_reverse_bits64 v =
     push_bit 32 (ucast (mini_reverse_bits32 (ucast v)))
       OR ucast (mini_reverse_bits32 (ucast (drop_bit 32 v)))"

definition mini_reverse_bits :: "'a::len word \<Rightarrow> 'a word" where
  "mini_reverse_bits v =
    (if LENGTH('a) = 8 then ucast (reverse_bits8 (ucast v))
     else if LENGTH('a) = 16 then ucast (mini_reverse_bits16 (ucast v))
     else if LENGTH('a) = 32 then ucast (mini_reverse_bits32 (ucast v))
     else ucast (mini_reverse_bits64 (ucast v)))"

text \<open>The inner loop of the constructor of \<open>lookup_table\<close>, eight iterations.\<close>

primrec lookup_table_loop :: "nat \<Rightarrow> 'a::len word \<Rightarrow> 'a word \<Rightarrow> 'a word" where
  "lookup_table_loop 0 REF_POLY entry = entry"
| "lookup_table_loop (Suc n) REF_POLY entry =
     lookup_table_loop n REF_POLY
       (if entry AND 1 \<noteq> 0 then drop_bit 1 entry XOR REF_POLY else drop_bit 1 entry)"

definition lookup_table :: "'a::len word \<Rightarrow> bool \<Rightarrow> 'a word list" where
  "lookup_table REF_POLY REF =
     fold (\<lambda>index entries.
             entries[index :=
               (let entry = (if REF then word_of_nat index
                             else ucast (reverse_bits8 (word_of_nat index)));
                    entry = lookup_table_loop 8 REF_POLY entry
                in if REF then entry else mini_reverse_bits entry)])
       [0..<256] (replicate 256 0)"

record (overloaded) ('a::len) mini_cfg =
  M_POLY :: "'a word"
  M_INIT :: "'a word"
  M_XOR_OUT :: "'a word"
  M_REF_IN :: bool
  M_REF_OUT :: bool

text \<open>\<open>base<T, POLY, INIT, XOR_OUT, REF_IN, REF_OUT>::calculate\<close>, both specialisations,
  with all four arguments given.\<close>

definition base_calculate :: "'a::len mini_cfg \<Rightarrow> uint8 list \<Rightarrow> bool \<Rightarrow> 'a word \<Rightarrow> 'a word" where
  "base_calculate c bytes interim crc =
    (if M_REF_IN c
     then (let tbl = lookup_table (mini_reverse_bits (M_POLY c)) True;
               crc = fold (\<lambda>p crc. tbl ! unat ((ucast crc :: uint8) XOR p)
                                     XOR drop_bit 4 (drop_bit 4 crc)) bytes crc
           in if interim then crc
              else (if M_REF_OUT c then crc else mini_reverse_bits crc) XOR M_XOR_OUT c)
     else (let tbl = lookup_table (mini_reverse_bits (M_POLY c)) False;
               crc = fold (\<lambda>p crc. tbl ! unat (drop_bit (LENGTH('a) - 8) crc XOR ucast p)
                                     XOR push_bit 4 (push_bit 4 crc)) bytes crc
           in if interim then crc
              else (if M_REF_OUT c then mini_reverse_bits crc else crc) XOR M_XOR_OUT c))"

text \<open>The default arguments \<open>interim = false\<close> and \<open>crc = INIT\<close> (\<open>reverse_bits(INIT)\<close> in
  the reflected specialisation).\<close>

definition mini_calculate :: "'a::len mini_cfg \<Rightarrow> uint8 list \<Rightarrow> 'a word" where
  "mini_calculate c bytes =
     base_calculate c bytes False (if M_REF_IN c then mini_reverse_bits (M_INIT c) else M_INIT c)"

record (overloaded) ('a::len) mini_parametric =
  mini_crc_reg :: "'a word"

definition mini_init :: "'a::len mini_cfg \<Rightarrow> 'a mini_parametric" where
  "mini_init c =
     \<lparr>mini_crc_reg = (if M_REF_IN c then mini_reverse_bits (M_INIT c) else M_INIT c)\<rparr>"

definition mini_update ::
  "'a::len mini_cfg \<Rightarrow> 'a mini_parametric \<Rightarrow> uint8 list \<Rightarrow> 'a mini_parametric" where
  "mini_update c this bytes = this\<lparr>mini_crc_reg := base_calculate c bytes True (mini_crc_reg this)\<rparr>"

definition mini_interim :: "'a::len mini_parametric \<Rightarrow> 'a word" where
  "mini_interim this = mini_crc_reg this"

definition mini_residue :: "'a::len mini_cfg \<Rightarrow> 'a mini_parametric \<Rightarrow> 'a word" where
  "mini_residue c this =
    (if M_REF_IN c \<noteq> M_REF_OUT c then mini_reverse_bits (mini_crc_reg this) else mini_crc_reg this)"

definition mini_final :: "'a::len mini_cfg \<Rightarrow> 'a mini_parametric \<Rightarrow> 'a word" where
  "mini_final c this = mini_residue c this XOR M_XOR_OUT c"

definition mini_table :: "'a::len mini_cfg \<Rightarrow> 'a word list" where
  "mini_table c = lookup_table (mini_reverse_bits (M_POLY c)) (M_REF_IN c)"

section \<open>Models of the catalogue\<close>

text \<open>Seven of the models declared in the namespaces \<open>crc8\<close>, \<open>crc16\<close>, \<open>crc32\<close> and
  \<open>crc64\<close>.\<close>

definition crc8_smbus :: "8 cfg" where
  "crc8_smbus = parametric_cfg 0x07 0x00 0x00 False"

definition crc8_sae_j1850 :: "8 cfg" where
  "crc8_sae_j1850 = parametric_cfg 0x1d 0xff 0xff False"

definition crc16_kermit :: "16 cfg" where
  "crc16_kermit = parametric_cfg 0x1021 0x0000 0x0000 True"

definition crc16_ibm_sdlc :: "16 cfg" where
  "crc16_ibm_sdlc = parametric_cfg 0x1021 0xffff 0xffff True"

definition crc32_iso_hdlc :: "32 cfg" where
  "crc32_iso_hdlc = parametric_cfg 0x04c11db7 0xffffffff 0xffffffff True"

definition crc32_bzip2 :: "32 cfg" where
  "crc32_bzip2 = parametric_cfg 0x04c11db7 0xffffffff 0xffffffff False"

definition crc64_xz :: "64 cfg" where
  "crc64_xz = parametric_cfg 0x42f0e1eba9ea3693 0xffffffffffffffff 0xffffffffffffffff True"

text \<open>A model that is not in the catalogue, with an output reflection that differs from the
  input reflection: \<open>crc::parametric<8, 0x07, 0x00, 0x01, false, true>\<close>.\<close>

definition crc8_crossed :: "8 cfg" where
  "crc8_crossed =
     \<lparr>POLY = 0x07, INIT = 0x00, XOR_OUT = 0x01,
      REF_IN = False, REF_OUT = True, REF_REG = False\<rparr>"

section \<open>The check of a codeword (test.cpp, test\_mini.cpp)\<close>

text \<open>
  \<open>run_one\<close> appends the CRC to the data: the value is bit-reversed if \<open>REF_IN\<close> and
  \<open>REF_OUT\<close> differ, then its \<open>sizeof(T)\<close> bytes are appended, the least significant
  first if \<open>REF_IN\<close>, the most significant first otherwise. \<open>crc_bytes\<close> is that tail
  for a given value, \<open>codeword\<close> the data followed by the tail for its own CRC.
\<close>

definition crc_bytes :: "'a::len cfg \<Rightarrow> 'a word \<Rightarrow> uint8 list" where
  "crc_bytes c crc_val0 =
    (let crc_val = (if REF_IN c \<noteq> REF_OUT c then reverse_bits crc_val0 else crc_val0)
     in if REF_IN c
        then map (\<lambda>i. ucast (drop_bit (i * 8) crc_val)) [0..<LENGTH('a) div 8]
        else map (\<lambda>i. ucast (drop_bit (i * 8) crc_val)) (rev [0..<LENGTH('a) div 8]))"

definition codeword ::
  "'a::len cfg \<Rightarrow> ('a word \<Rightarrow> uint8 list \<Rightarrow> 'a word) \<Rightarrow> uint8 list \<Rightarrow> uint8 list" where
  "codeword c UPDATER bytes =
     bytes @ crc_bytes c (impl_final c (impl_update c UPDATER (impl_init c) bytes))"

text \<open>The input of the tests, the nine characters \<open>"123456789"\<close>.\<close>

definition check_input :: "uint8 list" where
  "check_input = [0x31, 0x32, 0x33, 0x34, 0x35, 0x36, 0x37, 0x38, 0x39]"

section \<open>The specification's wording\<close>

text \<open>
  The definitions of this section follow the text of the specification, not the code:
  bit reversal within the width is \<open>word_reverse\<close>, the register step tests the top or
  the bottom bit, and the residue is derived in the four steps of the specification.
\<close>

definition spec_actual_poly :: "'a::len cfg \<Rightarrow> 'a word" where
  "spec_actual_poly c = (if REF_REG c then word_reverse (POLY c) else POLY c)"

definition spec_actual_init :: "'a::len cfg \<Rightarrow> 'a word" where
  "spec_actual_init c = (if REF_REG c then word_reverse (INIT c) else INIT c)"

definition spec_register_step :: "bool \<Rightarrow> 'a::len word \<Rightarrow> 'a word \<Rightarrow> 'a word" where
  "spec_register_step ref_reg actual_poly reg =
    (if ref_reg
     then (if bit reg 0 then drop_bit 1 reg XOR actual_poly else drop_bit 1 reg)
     else (if bit reg (LENGTH('a) - 1) then push_bit 1 reg XOR actual_poly else push_bit 1 reg))"

definition spec_residue :: "'a::len cfg \<Rightarrow> 'a word" where
  "spec_residue c =
    (let r = XOR_OUT c;
         r = (if REF_REG c \<noteq> REF_OUT c then word_reverse r else r);
         r = (spec_register_step (REF_REG c) (spec_actual_poly c) ^^ LENGTH('a)) r
     in if REF_REG c \<noteq> REF_IN c then word_reverse r else r)"

text \<open>The model of the full library that has the parameters of a model of the mini
  library: the register convention is that of the input.\<close>

definition cfg_of_mini :: "'a::len mini_cfg \<Rightarrow> 'a cfg" where
  "cfg_of_mini c =
     \<lparr>POLY = M_POLY c, INIT = M_INIT c, XOR_OUT = M_XOR_OUT c,
      REF_IN = M_REF_IN c, REF_OUT = M_REF_OUT c, REF_REG = M_REF_IN c\<rparr>"

section \<open>Facts about the bit reversals\<close>

text \<open>
  Each of the swap-mask pyramids, the byte table and the byte-wise reversals of the mini
  library is the reversal of the bits within the width, \<open>word_reverse\<close>. The pyramids
  are checked bit by bit.
\<close>

lemma bit_times2: "bit (v * 2 :: 'a::len word) n = (n \<noteq> 0 \<and> n < LENGTH('a) \<and> bit v (n - 1))"
  using bit_double_iff[of v n] by (auto simp: mult.commute possible_bit_word)

lemma all_less_numeral:
  "(\<forall>n<numeral k. P (n::nat)) = (P (pred_numeral k) \<and> (\<forall>n<pred_numeral k. P n))"
  by (metis less_Suc_eq numeral_eq_Suc)

lemma word_reverse_eqI:
  fixes w :: "'a::len word"
  assumes "\<forall>n<LENGTH('a). bit w n = bit v (LENGTH('a) - 1 - n)"
  shows "w = word_reverse v"
  using assms by (auto intro!: bit_eqI simp add: bit_simps dest: bit_imp_le_length)

lemma reverse_bits64_bits:
  "\<forall>n<LENGTH(64). bit (reverse_bits64 v) n = bit v (LENGTH(64) - 1 - n)"
  unfolding reverse_bits64_def Let_def
  apply (simp add: all_less_numeral bit_simps bit_times2)
  apply (simp add: numeral_2_eq_2)?
  done

lemma reverse_bits32_bits:
  "\<forall>n<LENGTH(32). bit (reverse_bits32 v) n = bit v (LENGTH(32) - 1 - n)"
  unfolding reverse_bits32_def Let_def
  apply (simp add: all_less_numeral bit_simps bit_times2)
  apply (simp add: numeral_2_eq_2)?
  done

lemma reverse_bits16_bits:
  "\<forall>n<LENGTH(16). bit (reverse_bits16 v) n = bit v (LENGTH(16) - 1 - n)"
  unfolding reverse_bits16_def Let_def
  apply (simp add: all_less_numeral bit_simps bit_times2)
  apply (simp add: numeral_2_eq_2)?
  done

lemma reverse_bits64_eq: "reverse_bits64 v = word_reverse v"
  by (rule word_reverse_eqI) (rule reverse_bits64_bits)

lemma reverse_bits32_eq: "reverse_bits32 v = word_reverse v"
  by (rule word_reverse_eqI) (rule reverse_bits32_bits)

lemma reverse_bits16_eq: "reverse_bits16 v = word_reverse v"
  by (rule word_reverse_eqI) (rule reverse_bits16_bits)

lemma reverse_bits_entry_bits:
  "\<forall>n<LENGTH(8). bit (reverse_bits_entry i) n = bit (word_of_nat i :: uint8) (LENGTH(8) - 1 - n)"
  unfolding reverse_bits_entry_def Let_def
  apply (simp add: all_less_numeral bit_simps bit_times2)
  apply (simp add: numeral_2_eq_2)?
  done

lemma reverse_bits_entry_eq: "reverse_bits_entry i = word_reverse (word_of_nat i :: uint8)"
  by (rule word_reverse_eqI) (rule reverse_bits_entry_bits)

lemma fold_fill_length [simp]: "length (fold (\<lambda>i e. e[i := f i]) ns xs) = length xs"
  by (induction ns arbitrary: xs) auto

lemma fold_fill_nth:
  "n \<le> length xs \<Longrightarrow> j < length xs \<Longrightarrow>
   fold (\<lambda>i e. e[i := f i]) [m..<n] xs ! j = (if m \<le> j \<and> j < n then f j else xs ! j)"
proof (induction n)
  case 0
  then show ?case by simp
next
  case (Suc n)
  show ?case
  proof (cases "m \<le> n")
    case True
    with Suc show ?thesis by (auto simp: nth_list_update)
  next
    case False
    with Suc show ?thesis by auto
  qed
qed

lemma reverse_bits8_eq: "reverse_bits8 v = word_reverse v"
proof -
  have "unat v < 256" using unsigned_less[of v, where 'a=nat] by simp
  then show ?thesis
    by (simp add: reverse_bits8_def reverse_bits_lookup_table_def fold_fill_nth reverse_bits_entry_eq)
qed

lemma ucast_word_reverse_same:
  fixes v :: "'a::len word"
  assumes "LENGTH('b::len) = LENGTH('a)"
  shows "ucast (word_reverse (ucast v :: 'b word)) = word_reverse v"
  using assms by (auto intro!: bit_eqI simp add: bit_simps)

lemma reverse_bits_eq:
  fixes v :: "'a::len word"
  assumes "LENGTH('a) \<in> {8, 16, 32, 64}"
  shows "reverse_bits v = word_reverse v"
  using assms
  by (auto simp add: reverse_bits_def reverse_bits8_eq reverse_bits16_eq reverse_bits32_eq
        reverse_bits64_eq ucast_word_reverse_same)

lemma word_reverse_halves:
  fixes v :: "'a::len word"
  assumes len: "LENGTH('a) = 2 * LENGTH('b::len)"
  shows "push_bit LENGTH('b) (ucast (word_reverse (ucast v :: 'b word)))
           OR ucast (word_reverse (ucast (drop_bit LENGTH('b) v) :: 'b word))
         = word_reverse v"
proof (rule word_reverse_eqI, intro allI impI)
  fix n assume n: "n < LENGTH('a)"
  let ?h = "LENGTH('b)"
  show "bit (push_bit ?h (ucast (word_reverse (ucast v :: 'b word)))
           OR ucast (word_reverse (ucast (drop_bit ?h v) :: 'b word)) :: 'a word) n
        = bit v (LENGTH('a) - 1 - n)"
  proof (cases "n < ?h")
    case True
    then have "?h + (?h - Suc n) = LENGTH('a) - 1 - n"
      using len by simp
    with True n show ?thesis
      by (simp add: bit_simps)
  next
    case False
    then have "?h - Suc (n - ?h) = LENGTH('a) - 1 - n"
      using len n by simp
    moreover have "n - ?h < ?h" "LENGTH('a) - 1 - n < ?h"
      using False len n by simp_all
    ultimately show ?thesis
      using False n len by (simp add: bit_simps)
  qed
qed

lemma mini_reverse_bits16_eq: "mini_reverse_bits16 v = word_reverse v"
  unfolding mini_reverse_bits16_def reverse_bits8_eq
  using word_reverse_halves[of v, where 'b=8] by simp

lemma mini_reverse_bits32_eq: "mini_reverse_bits32 v = word_reverse v"
  unfolding mini_reverse_bits32_def mini_reverse_bits16_eq
  using word_reverse_halves[of v, where 'b=16] by simp

lemma mini_reverse_bits64_eq: "mini_reverse_bits64 v = word_reverse v"
  unfolding mini_reverse_bits64_def mini_reverse_bits32_eq
  using word_reverse_halves[of v, where 'b=32] by simp

lemma mini_reverse_bits_eq:
  fixes v :: "'a::len word"
  assumes "LENGTH('a) \<in> {8, 16, 32, 64}"
  shows "mini_reverse_bits v = word_reverse v"
  using assms
  by (auto simp add: mini_reverse_bits_def reverse_bits8_eq mini_reverse_bits16_eq
        mini_reverse_bits32_eq mini_reverse_bits64_eq ucast_word_reverse_same)

section \<open>Linearity of the shift register\<close>

text \<open>
  The tests \<open>crc & MSB_MASK\<close> and \<open>crc & 1\<close> read the top and the bottom bit. One
  register step distributes over XOR, and on a register whose leading bits are zero it
  is a plain shift; so do \<open>n\<close> steps.
\<close>

lemma msb_mask_test:
  fixes crc :: "'a::len word"
  shows "(crc AND MSB_MASK \<noteq> 0) = bit crc (LENGTH('a) - 1)"
proof -
  have *: "bit (crc AND MSB_MASK) n = (n = LENGTH('a) - 1 \<and> bit crc n)" for n
    by (auto simp add: MSB_MASK_def bit_simps)
  show ?thesis
  proof
    assume "crc AND MSB_MASK \<noteq> 0"
    then obtain n where "bit (crc AND MSB_MASK) n"
      by (auto simp add: bit_eq_iff)
    with * show "bit crc (LENGTH('a) - 1)" by auto
  next
    assume "bit crc (LENGTH('a) - 1)"
    with * have "bit (crc AND MSB_MASK) (LENGTH('a) - 1)" by simp
    then show "crc AND MSB_MASK \<noteq> 0" by auto
  qed
qed

lemma lsb_test:
  fixes crc :: "'a::len word"
  shows "(crc AND 1 \<noteq> 0) = bit crc 0"
  by (simp add: and_one_eq bit_0 mod_2_eq_odd)

lemma bbb_loop_unreflected_xor:
  "bbb_loop_unreflected n poly (a XOR b) =
   bbb_loop_unreflected n poly a XOR bbb_loop_unreflected n poly b"
proof (induction n arbitrary: a b)
  case 0
  then show ?case by simp
next
  case (Suc n)
  have push: "push_bit 1 (a XOR b) = push_bit 1 a XOR push_bit 1 b"
    by (rule bit_eqI) (auto simp add: bit_simps)
  have "(if bit (a XOR b) (LENGTH('a) - 1) then push_bit 1 (a XOR b) XOR poly else push_bit 1 (a XOR b))
      = (if bit a (LENGTH('a) - 1) then push_bit 1 a XOR poly else push_bit 1 a)
        XOR (if bit b (LENGTH('a) - 1) then push_bit 1 b XOR poly else push_bit 1 b)"
    unfolding push by (simp add: bit_simps ac_simps)
  then show ?case
    by (simp only: bbb_loop_unreflected.simps msb_mask_test Suc.IH)
qed

lemma bbb_loop_reflected_xor:
  "bbb_loop_reflected n poly (a XOR b) =
   bbb_loop_reflected n poly a XOR bbb_loop_reflected n poly b"
proof (induction n arbitrary: a b)
  case 0
  then show ?case by simp
next
  case (Suc n)
  have drop: "drop_bit 1 (a XOR b) = drop_bit 1 a XOR drop_bit 1 b"
    by (rule bit_eqI) (auto simp add: bit_simps)
  have "(if bit (a XOR b) 0 then drop_bit 1 (a XOR b) XOR poly else drop_bit 1 (a XOR b))
      = (if bit a 0 then drop_bit 1 a XOR poly else drop_bit 1 a)
        XOR (if bit b 0 then drop_bit 1 b XOR poly else drop_bit 1 b)"
    unfolding drop by (simp add: bit_simps ac_simps)
  then show ?case
    by (simp only: bbb_loop_reflected.simps lsb_test Suc.IH)
qed

lemma bbb_loop_unreflected_add:
  "bbb_loop_unreflected (m + n) poly crc = bbb_loop_unreflected n poly (bbb_loop_unreflected m poly crc)"
  by (induction m arbitrary: crc) simp_all

lemma bbb_loop_reflected_add:
  "bbb_loop_reflected (m + n) poly crc = bbb_loop_reflected n poly (bbb_loop_reflected m poly crc)"
  by (induction m arbitrary: crc) simp_all

lemma bbb_loop_unreflected_shift:
  fixes x :: "'a::len word"
  assumes "n \<le> LENGTH('a)" "take_bit (LENGTH('a) - n) x = x"
  shows "bbb_loop_unreflected n poly x = push_bit n x"
  using assms
proof (induction n arbitrary: x)
  case 0
  then show ?case by simp
next
  case (Suc n)
  have nobit: "\<not> bit x i" if "LENGTH('a) - Suc n \<le> i" for i
  proof
    assume "bit x i"
    then have "bit (take_bit (LENGTH('a) - Suc n) x) i" using Suc.prems(2) by simp
    with that show False by (simp add: bit_simps)
  qed
  then have msb: "\<not> bit x (LENGTH('a) - 1)" using Suc.prems(1) by simp
  have tk: "take_bit (LENGTH('a) - n) (push_bit 1 x) = push_bit 1 x"
  proof (rule bit_eqI)
    fix i
    show "bit (take_bit (LENGTH('a) - n) (push_bit 1 x)) i = bit (push_bit 1 x) i"
    proof (cases "i < LENGTH('a) - n")
      case True
      then show ?thesis by (simp add: bit_take_bit_iff)
    next
      case False
      then have "\<not> bit x (i - 1)" by (intro nobit) simp
      with False show ?thesis by (simp add: bit_take_bit_iff bit_times2)
    qed
  qed
  have "bbb_loop_unreflected n poly (push_bit 1 x) = push_bit n (push_bit 1 x)"
    using Suc.IH[OF _ tk] Suc.prems(1) by simp
  also have "\<dots> = push_bit (Suc n) x"
    by (rule bit_eqI) (auto simp add: bit_simps)
  finally show ?case
    using msb by (simp only: bbb_loop_unreflected.simps msb_mask_test if_False)
qed

lemma bbb_loop_reflected_shift:
  fixes x :: "'a::len word"
  assumes "take_bit n x = 0"
  shows "bbb_loop_reflected n poly x = drop_bit n x"
  using assms
proof (induction n arbitrary: x)
  case 0
  then show ?case by simp
next
  case (Suc n)
  have nobit: "\<not> bit x i" if "i \<le> n" for i
  proof
    assume "bit x i"
    with that have "bit (take_bit (Suc n) x) i" by (simp add: bit_simps)
    then show False using Suc.prems by simp
  qed
  then have lsb: "\<not> bit x 0" by simp
  have tk: "take_bit n (drop_bit 1 x) = 0"
  proof (rule bit_eqI)
    fix i
    show "bit (take_bit n (drop_bit 1 x)) i = bit (0 :: 'a word) i"
      using nobit[of "Suc i"] by (auto simp add: bit_simps)
  qed
  have "bbb_loop_reflected n poly (drop_bit 1 x) = drop_bit n (drop_bit 1 x)"
    using Suc.IH[OF tk] .
  also have "\<dots> = drop_bit (Suc n) x"
    by (rule bit_eqI) (auto simp add: bit_simps)
  finally show ?case
    using lsb by (simp only: bbb_loop_reflected.simps lsb_test if_False)
qed

section \<open>One table step is eight register steps\<close>

text \<open>
  The register is split into the byte that meets the input and the rest. Eight steps on
  the rest shift it by eight, eight steps on the byte give the table entry.
\<close>

lemma split_register_unreflected:
  fixes crc :: "'a::len word"
  assumes "8 \<le> LENGTH('a)"
  shows "crc XOR push_bit (LENGTH('a) - 8) (ucast (b :: uint8)) =
         push_bit (LENGTH('a) - 8) (ucast (ucast (drop_bit (LENGTH('a) - 8) crc XOR ucast b) :: uint8))
           XOR take_bit (LENGTH('a) - 8) crc"
proof (rule bit_eqI)
  fix i
  assume "possible_bit TYPE('a word) i"
  then have i: "i < LENGTH('a)" by (simp add: possible_bit_word)
  show "bit (crc XOR push_bit (LENGTH('a) - 8) (ucast b)) i =
        bit (push_bit (LENGTH('a) - 8) (ucast (ucast (drop_bit (LENGTH('a) - 8) crc XOR ucast b) :: uint8))
           XOR take_bit (LENGTH('a) - 8) crc) i"
  proof (cases "i < LENGTH('a) - 8")
    case True
    then show ?thesis by (simp add: bit_simps)
  next
    case False
    then have "LENGTH('a) - 8 + (i - (LENGTH('a) - 8)) = i" "i - (LENGTH('a) - 8) < 8"
      using i assms by simp_all
    with False i show ?thesis by (simp add: bit_simps)
  qed
qed

lemma split_register_reflected:
  fixes crc :: "'a::len word"
  assumes "8 \<le> LENGTH('a)"
  shows "crc XOR ucast (b :: uint8) =
         ucast (ucast ((crc AND 0xff) XOR ucast b) :: uint8) XOR push_bit 8 (drop_bit 8 crc)"
proof (rule bit_eqI)
  fix i
  assume "possible_bit TYPE('a word) i"
  then have i: "i < LENGTH('a)" by (simp add: possible_bit_word)
  have m: "(0xff :: 'a word) = mask 8" by (simp add: mask_eq_exp_minus_1)
  show "bit (crc XOR ucast b) i =
        bit (ucast (ucast ((crc AND 0xff) XOR ucast b) :: uint8) XOR push_bit 8 (drop_bit 8 crc)) i"
  proof (cases "i < 8")
    case True
    with i show ?thesis unfolding m by (simp add: bit_simps)
  next
    case False
    then have "\<not> bit b i" by (auto dest: bit_imp_le_length)
    with False i show ?thesis unfolding m by (simp add: bit_simps)
  qed
qed


lemma bbb_loop_unreflected_zero [simp]: "bbb_loop_unreflected n poly 0 = 0"
  by (induction n) (simp_all add: MSB_MASK_def)

lemma bbb_loop_reflected_zero [simp]: "bbb_loop_reflected n poly 0 = 0"
  by (induction n) simp_all

lemma table_entry_unreflected_0:
  "table_entry_unreflected poly index 0 =
   bbb_loop_unreflected 8 poly (push_bit (LENGTH('a) - 8) (ucast index) :: 'a::len word)"
  by (simp add: table_entry_unreflected_def bbb_update_unreflected_def)

lemma table_entry_reflected_0:
  "table_entry_reflected poly index 0 = bbb_loop_reflected 8 poly (ucast index)"
  by (simp add: table_entry_reflected_def bbb_update_reflected_def)

lemma bbb_update_unreflected_table:
  fixes crc :: "'a::len word"
  assumes "8 \<le> LENGTH('a)"
  shows "bbb_update_unreflected poly crc b 8 =
         table_entry_unreflected poly (ucast (drop_bit (LENGTH('a) - 8) crc XOR ucast b)) 0
           XOR push_bit 8 crc"
proof -
  have tk: "take_bit (LENGTH('a) - 8) (take_bit (LENGTH('a) - 8) crc) = take_bit (LENGTH('a) - 8) crc"
    by simp
  have "bbb_loop_unreflected 8 poly (take_bit (LENGTH('a) - 8) crc)
        = push_bit 8 (take_bit (LENGTH('a) - 8) crc)"
    using assms tk by (rule bbb_loop_unreflected_shift)
  also have "\<dots> = push_bit 8 crc"
    by (rule bit_eqI) (use assms in \<open>auto simp add: bit_simps\<close>)
  finally have low: "bbb_loop_unreflected 8 poly (take_bit (LENGTH('a) - 8) crc) = push_bit 8 crc" .
  have "bbb_update_unreflected poly crc b 8 =
        bbb_loop_unreflected 8 poly (crc XOR push_bit (LENGTH('a) - 8) (ucast b))"
    by (simp add: bbb_update_unreflected_def)
  also have "\<dots> = bbb_loop_unreflected 8 poly
       (push_bit (LENGTH('a) - 8) (ucast (ucast (drop_bit (LENGTH('a) - 8) crc XOR ucast b) :: uint8))
           XOR take_bit (LENGTH('a) - 8) crc)"
    using split_register_unreflected[OF assms, of crc b] by (rule arg_cong)
  finally show ?thesis
    by (simp only: bbb_loop_unreflected_xor low table_entry_unreflected_0)
qed

lemma bbb_update_reflected_table:
  fixes crc :: "'a::len word"
  assumes "8 \<le> LENGTH('a)"
  shows "bbb_update_reflected poly crc b 8 =
         table_entry_reflected poly (ucast ((crc AND 0xff) XOR ucast b)) 0 XOR drop_bit 8 crc"
proof -
  have tk: "take_bit 8 (push_bit 8 (drop_bit 8 crc)) = 0"
    by (rule bit_eqI) (auto simp add: bit_simps)
  have "bbb_loop_reflected 8 poly (push_bit 8 (drop_bit 8 crc))
        = drop_bit 8 (push_bit 8 (drop_bit 8 crc))"
    using tk by (rule bbb_loop_reflected_shift)
  also have "\<dots> = drop_bit 8 crc"
    by (rule bit_eqI) (auto simp add: bit_simps dest: bit_imp_le_length)
  finally have high: "bbb_loop_reflected 8 poly (push_bit 8 (drop_bit 8 crc)) = drop_bit 8 crc" .
  have "bbb_update_reflected poly crc b 8 = bbb_loop_reflected 8 poly (crc XOR ucast b)"
    by (simp add: bbb_update_reflected_def)
  also have "\<dots> = bbb_loop_reflected 8 poly
       (ucast (ucast ((crc AND 0xff) XOR ucast b) :: uint8) XOR push_bit 8 (drop_bit 8 crc))"
    using split_register_reflected[OF assms, of crc b] by (rule arg_cong)
  finally show ?thesis
    by (simp only: bbb_loop_reflected_xor high table_entry_reflected_0)
qed

text \<open>The step through a table agrees with eight bit-by-bit steps as soon as the table
  holds the entries \<open>table_entry poly i 0\<close>.\<close>

lemma table_based_crc_updater_unreflected:
  fixes crc :: "'a::len word"
  assumes "8 \<le> LENGTH('a)"
  shows "table_based_crc_updater False crc b (\<lambda>i. table_entry_unreflected poly i 0) =
         bbb_update_unreflected poly crc b 8"
proof (cases "LENGTH('a) = 8")
  case True
  then have "push_bit 8 crc = 0"
    by (auto intro!: bit_eqI simp add: bit_simps)
  with True show ?thesis
    by (simp add: table_based_crc_updater_def bbb_update_unreflected_table[OF assms])
next
  case False
  then show ?thesis
    by (simp add: table_based_crc_updater_def bbb_update_unreflected_table[OF assms])
qed

lemma table_based_crc_updater_reflected:
  fixes crc :: "'a::len word"
  assumes "8 \<le> LENGTH('a)"
  shows "table_based_crc_updater True crc b (\<lambda>i. table_entry_reflected poly i 0) =
         bbb_update_reflected poly crc b 8"
proof (cases "LENGTH('a) = 8")
  case True
  then have "drop_bit 8 crc = 0"
    by (auto intro!: bit_eqI simp add: bit_simps)
  moreover have "crc AND 0xff = crc"
  proof -
    have m: "(0xff :: 'a word) = mask 8"
      by (simp add: mask_eq_exp_minus_1)
    show ?thesis
      unfolding m using True by (auto intro!: bit_eqI simp add: bit_simps)
  qed
  ultimately show ?thesis using True
    by (simp add: table_based_crc_updater_def bbb_update_reflected_table[OF assms])
next
  case False
  then show ?thesis
    by (simp add: table_based_crc_updater_def bbb_update_reflected_table[OF assms])
qed

section \<open>Table entries\<close>

text \<open>
  A table entry is additive in its index, and the entries whose index has a zero nibble
  can skip the four steps that only shift zero bits.
\<close>

lemma table_entry_unreflected_xor:
  "table_entry_unreflected poly (a XOR b) 0 =
   table_entry_unreflected poly a 0 XOR table_entry_unreflected poly b 0"
proof -
  have "(push_bit (LENGTH('a) - 8) (ucast (a XOR b)) :: 'a::len word) =
        push_bit (LENGTH('a) - 8) (ucast a) XOR push_bit (LENGTH('a) - 8) (ucast b)"
    by (rule bit_eqI) (auto simp add: bit_simps)
  then show ?thesis
    by (simp only: table_entry_unreflected_0 bbb_loop_unreflected_xor)
qed

lemma table_entry_reflected_xor:
  "table_entry_reflected poly (a XOR b) 0 =
   table_entry_reflected poly a 0 XOR table_entry_reflected poly b 0"
proof -
  have "(ucast (a XOR b) :: 'a::len word) = ucast a XOR ucast b"
    by (rule bit_eqI) (auto simp add: bit_simps)
  then show ?thesis
    by (simp only: table_entry_reflected_0 bbb_loop_reflected_xor)
qed

lemma table_entry_unreflected_zero [simp]: "table_entry_unreflected poly 0 0 = 0"
  by (simp add: table_entry_unreflected_0)

lemma table_entry_reflected_zero [simp]: "table_entry_reflected poly 0 0 = 0"
  by (simp add: table_entry_reflected_0)

lemma table_entry_unreflected_skip:
  fixes poly :: "'a::len word"
  assumes len: "8 \<le> LENGTH('a)" and low: "take_bit 4 index = index"
  shows "table_entry_unreflected poly index 4 = table_entry_unreflected poly index 0"
proof -
  let ?X = "push_bit (LENGTH('a) - 8) (ucast index) :: 'a word"
  have nobit: "\<not> bit index i" if "4 \<le> i" for i
  proof
    assume "bit index i"
    then have "bit (take_bit 4 index) i" using low by simp
    with that show False by (simp add: bit_simps)
  qed
  have tk: "take_bit (LENGTH('a) - 4) ?X = ?X"
  proof (rule bit_eqI)
    fix i
    show "bit (take_bit (LENGTH('a) - 4) ?X) i = bit ?X i"
    proof (cases "i < LENGTH('a) - 4")
      case True
      then show ?thesis by (simp add: bit_simps)
    next
      case False
      then have "4 \<le> i - (LENGTH('a) - 8)" using len by simp
      then have "\<not> bit index (i - (LENGTH('a) - 8))" by (rule nobit)
      with False show ?thesis by (simp add: bit_simps)
    qed
  qed
  have ub: "push_bit 4 (ucast index :: 'a word) = ucast (push_bit 4 index)"
  proof (rule bit_eqI)
    fix i
    assume "possible_bit TYPE('a word) i"
    then have i: "i < LENGTH('a)" by (simp add: possible_bit_word)
    have "i < 8" if "bit index (i - 4)"
      using that nobit[of "i - 4"] by (cases "i < 8") auto
    then show "bit (push_bit 4 (ucast index) :: 'a word) i = bit (ucast (push_bit 4 index) :: 'a word) i"
      using i by (auto simp add: bit_simps)
  qed
  have "push_bit 4 ?X = push_bit (LENGTH('a) - 8) (push_bit 4 (ucast index))"
    by (simp add: add.commute)
  then have shifted: "push_bit 4 ?X = push_bit (LENGTH('a) - 8) (ucast (push_bit 4 index))"
    by (simp only: ub)
  have "table_entry_unreflected poly index 0 = bbb_loop_unreflected (4 + 4) poly ?X"
    by (simp add: table_entry_unreflected_0)
  also have "\<dots> = bbb_loop_unreflected 4 poly (bbb_loop_unreflected 4 poly ?X)"
    by (rule bbb_loop_unreflected_add)
  also have "bbb_loop_unreflected 4 poly ?X = push_bit 4 ?X"
    using len tk by (intro bbb_loop_unreflected_shift) simp_all
  also note shifted
  finally have "table_entry_unreflected poly index 0 =
      bbb_loop_unreflected 4 poly (push_bit (LENGTH('a) - 8) (ucast (push_bit 4 index)))" .
  moreover have "table_entry_unreflected poly index 4 =
      bbb_loop_unreflected 4 poly (push_bit (LENGTH('a) - 8) (ucast (push_bit 4 index)))"
    by (simp add: table_entry_unreflected_def bbb_update_unreflected_def)
  ultimately show ?thesis by simp
qed

lemma table_entry_reflected_skip:
  fixes ref_poly :: "'a::len word"
  assumes len: "8 \<le> LENGTH('a)" and low: "take_bit 4 index = 0"
  shows "table_entry_reflected ref_poly index 4 = table_entry_reflected ref_poly index 0"
proof -
  let ?X = "ucast index :: 'a word"
  have tk: "take_bit 4 ?X = 0"
  proof (rule bit_eqI)
    fix i
    have "bit (take_bit 4 index) i = False" using low by simp
    then show "bit (take_bit 4 ?X) i = bit (0 :: 'a word) i"
      by (auto simp add: bit_simps)
  qed
  have shifted: "drop_bit 4 ?X = ucast (drop_bit 4 index)"
    by (rule bit_eqI) (use len in \<open>auto simp add: bit_simps dest: bit_imp_le_length\<close>)
  have "table_entry_reflected ref_poly index 0 = bbb_loop_reflected (4 + 4) ref_poly ?X"
    by (simp add: table_entry_reflected_0)
  also have "\<dots> = bbb_loop_reflected 4 ref_poly (bbb_loop_reflected 4 ref_poly ?X)"
    by (rule bbb_loop_reflected_add)
  also have "bbb_loop_reflected 4 ref_poly ?X = drop_bit 4 ?X"
    using tk by (rule bbb_loop_reflected_shift)
  also note shifted
  finally have "table_entry_reflected ref_poly index 0 =
      bbb_loop_reflected 4 ref_poly (ucast (drop_bit 4 index))" .
  moreover have "table_entry_reflected ref_poly index 4 =
      bbb_loop_reflected 4 ref_poly (ucast (drop_bit 4 index))"
    by (simp add: table_entry_reflected_def bbb_update_reflected_def)
  ultimately show ?thesis by simp
qed

section \<open>Generating the tables\<close>

text \<open>
  \<open>generate_table\<close> writes the entries in increasing order of the index, every entry of
  a row from the first entry of the row and an entry of the first row. After it the
  entry at \<open>i\<close> is \<open>table_entry poly i 0\<close>, whatever the array held before.
\<close>

lemma unat_byte_of_nat: "j < 256 \<Longrightarrow> unat (word_of_nat j :: uint8) = j"
  by (simp add: unat_of_nat)

lemma nat_nibbles_xor:
  fixes m i :: nat
  assumes "i < 16"
  shows "(16 * m) XOR i = 16 * m + i"
proof -
  have "\<not> bit (push_bit 4 m) n \<or> \<not> bit i n" for n
  proof (cases "n < 4")
    case True
    then show ?thesis by (simp add: bit_simps)
  next
    case False
    then have "(16::nat) \<le> 2 ^ n"
      using power_increasing[of 4 n "2::nat"] by simp
    with assms have "i div 2 ^ n = 0" by simp
    then show ?thesis by (simp add: bit_iff_odd)
  qed
  then have "push_bit 4 m + i = push_bit 4 m XOR i"
    by (simp add: disjunctive_add disjunctive_xor_eq_or bit_eq_iff bit_simps)
  then show ?thesis by (simp add: push_bit_eq_mult mult.commute)
qed

lemma byte_nibbles_xor:
  "i < 16 \<Longrightarrow> (word_of_nat (16 * m) :: uint8) XOR word_of_nat i = word_of_nat (16 * m + i)"
  using of_nat_xor_eq[of "16 * m" i, where 'a="uint8"] by (simp add: nat_nibbles_xor)

lemma take_bit_4_of_nat_low: "i < 16 \<Longrightarrow> take_bit 4 (word_of_nat i :: uint8) = word_of_nat i"
  by (simp add: take_bit_of_nat take_bit_nat_eq_self)

lemma take_bit_4_of_nat_high: "take_bit 4 (word_of_nat (16 * m) :: uint8) = 0"
proof -
  have "take_bit 4 (word_of_nat (16 * m) :: uint8) = word_of_nat (take_bit 4 (16 * m))"
    by (rule take_bit_of_nat)
  also have "take_bit 4 (16 * m) = (0::nat)"
    by (simp add: take_bit_eq_mod)
  also have "word_of_nat 0 = (0 :: uint8)" by simp
  finally show ?thesis .
qed

lemma generate_table_row_length [simp]: "length (generate_table_row k e) = length e"
proof -
  have "length (fold (\<lambda>i entries.
             entries[unat (k XOR word_of_nat i) := entries ! unat k XOR entries ! i]) ns e) = length e" for ns
    by (induction ns arbitrary: e) auto
  then show ?thesis by (simp add: generate_table_row_def)
qed

lemma generate_table_row_correct:
  fixes te :: "uint8 \<Rightarrow> 'a::len word"
  assumes lin: "\<And>a b. te (a XOR b) = te a XOR te b"
    and len: "length e = 256" and m: "1 \<le> m" "m < 16"
    and good: "\<forall>j<16 * m + 1. e ! j = te (word_of_nat j)"
  shows "\<forall>j<16 * m + 16. generate_table_row (word_of_nat (16 * m)) e ! j = te (word_of_nat j)"
proof -
  let ?k = "word_of_nat (16 * m) :: uint8"
  let ?F = "\<lambda>i entries. entries[unat (?k XOR word_of_nat i) := entries ! unat ?k XOR entries ! i]"
  have lenF: "length (fold ?F ns xs) = length xs" for ns xs
    by (induction ns arbitrary: xs) auto
  have *: "\<forall>j<16 * m + Suc u. fold ?F [1..<Suc u] e ! j = te (word_of_nat j)" if "u < 16" for u
    using that
  proof (induction u)
    case 0
    with good show ?case by simp
  next
    case (Suc u)
    let ?e = "fold ?F [1..<Suc u] e"
    from Suc have IH: "\<forall>j<16 * m + Suc u. ?e ! j = te (word_of_nat j)" by simp
    have u: "Suc u < 16" by fact
    have idx: "unat (?k XOR word_of_nat (Suc u)) = 16 * m + Suc u"
      using u m by (simp add: byte_nibbles_xor unat_byte_of_nat del: of_nat_Suc of_nat_add of_nat_mult)
    have k: "unat ?k = 16 * m"
      using m by (simp add: unat_byte_of_nat del: of_nat_mult)
    have "?e ! unat ?k = te ?k"
      using IH k by simp
    moreover have "?e ! Suc u = te (word_of_nat (Suc u))"
      using IH m by simp
    ultimately have val: "?e ! unat ?k XOR ?e ! Suc u = te (word_of_nat (16 * m + Suc u))"
      using byte_nibbles_xor[OF u, of m] by (simp only: lin[symmetric])
    have step: "fold ?F [1..<Suc (Suc u)] e = ?e[16 * m + Suc u := te (word_of_nat (16 * m + Suc u))]"
      by (simp only: upt_Suc_append[of 1 "Suc u"] fold_append comp_apply fold.simps id_apply idx val)
    show ?case
    proof (intro allI impI)
      fix j assume "j < 16 * m + Suc (Suc u)"
      then consider "j < 16 * m + Suc u" | "j = 16 * m + Suc u" by linarith
      then show "fold ?F [1..<Suc (Suc u)] e ! j = te (word_of_nat j)"
      proof cases
        case 1
        with IH show ?thesis unfolding step by simp
      next
        case 2
        have "length ?e = 256"
          by (simp only: lenF len)
        moreover have "16 * m + Suc u < 256"
          using u m by simp
        ultimately have "16 * m + Suc u < length ?e"
          by simp
        with 2 show ?thesis unfolding step by simp
      qed
    qed
  qed
  have s: "Suc 15 = 16" by simp
  have "15 < (16::nat)" by simp
  from *[OF this] show ?thesis
    unfolding generate_table_row_def s .
qed

lemma table_row_step:
  fixes te :: "uint8 \<Rightarrow> 'a::len word"
  assumes lin: "\<And>a b. te (a XOR b) = te a XOR te b"
    and len: "length e = 256" and m: "m < 15"
    and good: "\<forall>j<16 * (m + 1). e ! j = te (word_of_nat j)"
  shows "\<forall>j<16 * (m + 2).
           generate_table_row (word_of_nat (16 * (m + 1)))
             (e[unat (word_of_nat (16 * (m + 1)) :: uint8) := te (word_of_nat (16 * (m + 1)))]) ! j
           = te (word_of_nat j)"
proof -
  let ?k = "word_of_nat (16 * (m + 1)) :: uint8"
  let ?e = "e[unat ?k := te ?k]"
  have k: "unat ?k = 16 * (m + 1)"
    using m by (simp add: unat_byte_of_nat del: of_nat_mult of_nat_add)
  have "\<forall>j<16 * (m + 1) + 1. ?e ! j = te (word_of_nat j)"
  proof (intro allI impI)
    fix j assume "j < 16 * (m + 1) + 1"
    then consider "j < 16 * (m + 1)" | "j = 16 * (m + 1)" by linarith
    then show "?e ! j = te (word_of_nat j)"
    proof cases
      case 1
      with good show ?thesis unfolding k by simp
    next
      case 2
      have "16 * (m + 1) < length e" using m len by simp
      with 2 show ?thesis unfolding k by simp
    qed
  qed
  moreover have "length ?e = 256" "1 \<le> m + 1" "m + 1 < 16"
    using len m by simp_all
  ultimately have "\<forall>j<16 * (m + 1) + 16. generate_table_row ?k ?e ! j = te (word_of_nat j)"
    using lin by (intro generate_table_row_correct)
  moreover have "16 * (m + 1) + 16 = 16 * (m + 2)" by simp
  ultimately show ?thesis by (simp only:)
qed

lemma byte_row_next: "(word_of_nat (16 * m) :: uint8) + 0x10 = word_of_nat (16 * (m + 1))"
  by simp

lemma byte_row_less: "m \<le> 15 \<Longrightarrow> ((word_of_nat (16 * m) :: uint8) < 0xf0) = (m < 15)"
proof -
  assume "m \<le> 15"
  then have "unat (word_of_nat (16 * m) :: uint8) = 16 * m"
    by (simp add: unat_byte_of_nat del: of_nat_mult)
  then show ?thesis
    by (simp only: word_less_nat_alt) simp
qed

lemma generate_table_rows_unreflected_correct:
  fixes poly :: "'a::len word"
  assumes len8: "8 \<le> LENGTH('a)"
  shows "m \<le> 14 \<Longrightarrow> length e = 256 \<Longrightarrow>
         \<forall>j<16 * (m + 1). e ! j = table_entry_unreflected poly (word_of_nat j) 0 \<Longrightarrow>
         length (generate_table_rows_unreflected poly (word_of_nat (16 * m)) e) = 256 \<and>
         (\<forall>j<256. generate_table_rows_unreflected poly (word_of_nat (16 * m)) e ! j
                   = table_entry_unreflected poly (word_of_nat j) 0)"
proof (induction "14 - m" arbitrary: m e)
  case 0
  then have m: "m = 14" by simp
  let ?k = "word_of_nat (16 * (m + 1)) :: uint8"
  let ?e = "generate_table_row ?k (e[unat ?k := table_entry_unreflected poly ?k 0])"
  have "\<not> ?k < 0xf0"
    using byte_row_less[of "m + 1"] m by simp
  then have eq: "generate_table_rows_unreflected poly (word_of_nat (16 * m)) e = ?e"
    by (subst generate_table_rows_unreflected.simps) (simp only: byte_row_next if_False)
  have "\<forall>j<16 * (m + 2). ?e ! j = table_entry_unreflected poly (word_of_nat j) 0"
    using 0 m by (intro table_row_step table_entry_unreflected_xor) simp_all
  moreover have "16 * (m + 2) = 256" using m by simp
  moreover have "length ?e = 256" using 0 by simp
  ultimately show ?case by (simp only: eq)
next
  case (Suc d)
  then have m: "m < 14" by simp
  let ?k = "word_of_nat (16 * (m + 1)) :: uint8"
  let ?e = "generate_table_row ?k (e[unat ?k := table_entry_unreflected poly ?k 0])"
  have "?k < 0xf0"
    using byte_row_less[of "m + 1"] m by simp
  then have eq: "generate_table_rows_unreflected poly (word_of_nat (16 * m)) e =
                 generate_table_rows_unreflected poly ?k ?e"
    by (subst generate_table_rows_unreflected.simps) (simp only: byte_row_next if_True)
  have good: "\<forall>j<16 * (m + 1 + 1). ?e ! j = table_entry_unreflected poly (word_of_nat j) 0"
    using Suc.prems m table_row_step[of "\<lambda>i. table_entry_unreflected poly i 0" e m]
    by (simp add: table_entry_unreflected_xor del: of_nat_mult of_nat_add)
  have "length ?e = 256" using Suc.prems by simp
  moreover have "d = 14 - (m + 1)" "m + 1 \<le> 14" using Suc.hyps m by simp_all
  ultimately show ?case
    unfolding eq using good by (intro Suc.hyps(1))
qed


lemma generate_table_rows_reflected_correct:
  fixes poly :: "'a::len word"
  assumes len8: "8 \<le> LENGTH('a)"
  shows "m \<le> 14 \<Longrightarrow> length e = 256 \<Longrightarrow>
         \<forall>j<16 * (m + 1). e ! j = table_entry_reflected poly (word_of_nat j) 0 \<Longrightarrow>
         length (generate_table_rows_reflected poly (word_of_nat (16 * m)) e) = 256 \<and>
         (\<forall>j<256. generate_table_rows_reflected poly (word_of_nat (16 * m)) e ! j
                   = table_entry_reflected poly (word_of_nat j) 0)"
proof (induction "14 - m" arbitrary: m e)
  case 0
  then have m: "m = 14" by simp
  let ?k = "word_of_nat (16 * (m + 1)) :: uint8"
  let ?e = "generate_table_row ?k (e[unat ?k := table_entry_reflected poly ?k 0])"
  have skip: "table_entry_reflected poly ?k 4 = table_entry_reflected poly ?k 0"
    using len8 take_bit_4_of_nat_high by (rule table_entry_reflected_skip)
  have "\<not> ?k < 0xf0"
    using byte_row_less[of "m + 1"] m by simp
  then have eq: "generate_table_rows_reflected poly (word_of_nat (16 * m)) e = ?e"
    by (subst generate_table_rows_reflected.simps) (simp only: byte_row_next if_False skip)
  have "\<forall>j<16 * (m + 2). ?e ! j = table_entry_reflected poly (word_of_nat j) 0"
    using 0 m by (intro table_row_step table_entry_reflected_xor) simp_all
  moreover have "16 * (m + 2) = 256" using m by simp
  moreover have "length ?e = 256" using 0 by simp
  ultimately show ?case by (simp only: eq)
next
  case (Suc d)
  then have m: "m < 14" by simp
  let ?k = "word_of_nat (16 * (m + 1)) :: uint8"
  let ?e = "generate_table_row ?k (e[unat ?k := table_entry_reflected poly ?k 0])"
  have skip: "table_entry_reflected poly ?k 4 = table_entry_reflected poly ?k 0"
    using len8 take_bit_4_of_nat_high by (rule table_entry_reflected_skip)
  have "?k < 0xf0"
    using byte_row_less[of "m + 1"] m by simp
  then have eq: "generate_table_rows_reflected poly (word_of_nat (16 * m)) e =
                 generate_table_rows_reflected poly ?k ?e"
    by (subst generate_table_rows_reflected.simps) (simp only: byte_row_next if_True skip)
  have good: "\<forall>j<16 * (m + 1 + 1). ?e ! j = table_entry_reflected poly (word_of_nat j) 0"
    using Suc.prems m table_row_step[of "\<lambda>i. table_entry_reflected poly i 0" e m]
    by (simp add: table_entry_reflected_xor del: of_nat_mult of_nat_add)
  have "length ?e = 256" using Suc.prems by simp
  moreover have "d = 14 - (m + 1)" "m + 1 \<le> 14" using Suc.hyps m by simp_all
  ultimately show ?case
    unfolding eq using good by (intro Suc.hyps(1))
qed

lemma generate_table_unreflected_correct:
  fixes poly :: "'a::len word"
  assumes len8: "8 \<le> LENGTH('a)" and len: "length e = 256"
  shows "length (generate_table_unreflected poly e) = 256 \<and>
         (\<forall>j<256. generate_table_unreflected poly e ! j
                   = table_entry_unreflected poly (word_of_nat j) 0)"
proof -
  let ?e = "fold (\<lambda>i entries. entries[i := table_entry_unreflected poly (word_of_nat i) 4])
              [1..<16] (e[0 := 0])"
  have "?e ! j = table_entry_unreflected poly (word_of_nat j) 0" if "j < 16" for j
  proof (cases "j = 0")
    case True
    with len show ?thesis by (simp add: fold_fill_nth)
  next
    case False
    have "table_entry_unreflected poly (word_of_nat j) 4
          = table_entry_unreflected poly (word_of_nat j) 0"
      using len8 take_bit_4_of_nat_low[OF that] by (rule table_entry_unreflected_skip)
    with False that len show ?thesis by (simp add: fold_fill_nth)
  qed
  then have "\<forall>j<16 * (0 + 1). ?e ! j = table_entry_unreflected poly (word_of_nat j) 0"
    by simp
  moreover have "length ?e = 256" using len by simp
  ultimately have
    "length (generate_table_rows_unreflected poly (word_of_nat (16 * 0)) ?e) = 256 \<and>
     (\<forall>j<256. generate_table_rows_unreflected poly (word_of_nat (16 * 0)) ?e ! j
               = table_entry_unreflected poly (word_of_nat j) 0)"
    using len8 by (intro generate_table_rows_unreflected_correct) simp_all
  then show ?thesis
    by (simp add: generate_table_unreflected_def)
qed

lemma generate_table_reflected_correct:
  fixes poly :: "'a::len word"
  assumes len8: "8 \<le> LENGTH('a)" and len: "length e = 256"
  shows "length (generate_table_reflected poly e) = 256 \<and>
         (\<forall>j<256. generate_table_reflected poly e ! j
                   = table_entry_reflected poly (word_of_nat j) 0)"
proof -
  let ?e = "fold (\<lambda>i entries. entries[i := table_entry_reflected poly (word_of_nat i) 0])
              [1..<16] (e[0 := 0])"
  have "?e ! j = table_entry_reflected poly (word_of_nat j) 0" if "j < 16" for j
    using that len by (cases "j = 0") (simp_all add: fold_fill_nth)
  then have "\<forall>j<16 * (0 + 1). ?e ! j = table_entry_reflected poly (word_of_nat j) 0"
    by simp
  moreover have "length ?e = 256" using len by simp
  ultimately have
    "length (generate_table_rows_reflected poly (word_of_nat (16 * 0)) ?e) = 256 \<and>
     (\<forall>j<256. generate_table_rows_reflected poly (word_of_nat (16 * 0)) ?e ! j
               = table_entry_reflected poly (word_of_nat j) 0)"
    using len8 by (intro generate_table_rows_reflected_correct) simp_all
  then show ?thesis
    by (simp add: generate_table_reflected_def)
qed

lemma byte_low_nibble:
  fixes i :: uint8
  shows "unat (i AND 0x0f) < 16" and "take_bit 4 (i AND 0x0f) = i AND 0x0f"
proof -
  have m: "(0x0f :: uint8) = mask 4" by (simp add: mask_eq_exp_minus_1)
  have "i AND 0x0f = take_bit 4 i" unfolding m by (simp add: take_bit_eq_mask)
  moreover have "unat (take_bit 4 i) < 2 ^ 4"
    by (simp only: unsigned_take_bit_eq) (rule take_bit_nat_less_exp)
  ultimately show "unat (i AND 0x0f) < 16" "take_bit 4 (i AND 0x0f) = i AND 0x0f"
    by simp_all
qed

lemma byte_high_nibble:
  fixes i :: uint8
  shows "unat (drop_bit 4 i) < 16"
proof -
  have "unat (drop_bit 4 i) = drop_bit 4 (unat i)"
    by (simp add: unat_drop_bit_eq)
  also have "\<dots> < 16"
    using unsigned_less[of i, where 'a=nat] by (simp add: drop_bit_eq_div)
  finally show ?thesis .
qed

lemma byte_nibbles:
  fixes i :: uint8
  shows "(i AND 0x0f) XOR push_bit 4 (drop_bit 4 i) = i"
proof -
  have m: "(0x0f :: uint8) = mask 4" by (simp add: mask_eq_exp_minus_1)
  show ?thesis
    unfolding m by (rule bit_eqI) (auto simp add: bit_simps)
qed

lemma take_bit_4_push_bit_4: "take_bit 4 (push_bit 4 (x :: uint8)) = 0"
  by (rule bit_eqI) (auto simp add: bit_simps)

lemma generate_small_table_unreflected_correct:
  fixes poly :: "'a::len word"
  assumes len8: "8 \<le> LENGTH('a)" and len: "length r = 16" "length col = 16"
  shows "fst (generate_small_table_unreflected poly r col) ! unat (i AND 0x0f)
          XOR snd (generate_small_table_unreflected poly r col) ! unat (drop_bit 4 i)
         = table_entry_unreflected poly i 0"
proof -
  let ?lo = "i AND 0x0f" and ?hi = "drop_bit 4 i"
  have lo: "fst (generate_small_table_unreflected poly r col) ! unat ?lo
            = table_entry_unreflected poly ?lo 0"
  proof (cases "unat ?lo = 0")
    case True
    then have "?lo = 0" by (simp add: unat_eq_0)
    with True len show ?thesis
      by (simp add: generate_small_table_unreflected_def fold_fill_nth)
  next
    case False
    have "table_entry_unreflected poly ?lo 4 = table_entry_unreflected poly ?lo 0"
      using len8 byte_low_nibble(2) by (rule table_entry_unreflected_skip)
    with False len byte_low_nibble(1)[of i] show ?thesis
      by (simp add: generate_small_table_unreflected_def fold_fill_nth)
  qed
  have hi: "snd (generate_small_table_unreflected poly r col) ! unat ?hi
            = table_entry_unreflected poly (push_bit 4 ?hi) 0"
  proof (cases "unat ?hi = 0")
    case True
    then have "?hi = 0" by (simp add: unat_eq_0)
    with True len show ?thesis
      by (simp add: generate_small_table_unreflected_def fold_fill_nth)
  next
    case False
    with len byte_high_nibble[of i] show ?thesis
      by (simp add: generate_small_table_unreflected_def fold_fill_nth)
  qed
  show ?thesis
    unfolding lo hi by (simp only: table_entry_unreflected_xor[symmetric] byte_nibbles)
qed

lemma generate_small_table_reflected_correct:
  fixes poly :: "'a::len word"
  assumes len8: "8 \<le> LENGTH('a)" and len: "length r = 16" "length col = 16"
  shows "fst (generate_small_table_reflected poly r col) ! unat (i AND 0x0f)
          XOR snd (generate_small_table_reflected poly r col) ! unat (drop_bit 4 i)
         = table_entry_reflected poly i 0"
proof -
  let ?lo = "i AND 0x0f" and ?hi = "drop_bit 4 i"
  have lo: "fst (generate_small_table_reflected poly r col) ! unat ?lo
            = table_entry_reflected poly ?lo 0"
  proof (cases "unat ?lo = 0")
    case True
    then have "?lo = 0" by (simp add: unat_eq_0)
    with True len show ?thesis
      by (simp add: generate_small_table_reflected_def fold_fill_nth)
  next
    case False
    with len byte_low_nibble(1)[of i] show ?thesis
      by (simp add: generate_small_table_reflected_def fold_fill_nth)
  qed
  have hi: "snd (generate_small_table_reflected poly r col) ! unat ?hi
            = table_entry_reflected poly (push_bit 4 ?hi) 0"
  proof (cases "unat ?hi = 0")
    case True
    then have "?hi = 0" by (simp add: unat_eq_0)
    with True len show ?thesis
      by (simp add: generate_small_table_reflected_def fold_fill_nth)
  next
    case False
    have "table_entry_reflected poly (push_bit 4 ?hi) 4 = table_entry_reflected poly (push_bit 4 ?hi) 0"
      using len8 take_bit_4_push_bit_4 by (rule table_entry_reflected_skip)
    with False len byte_high_nibble[of i] show ?thesis
      by (simp add: generate_small_table_reflected_def fold_fill_nth)
  qed
  show ?thesis
    unfolding lo hi by (simp only: table_entry_reflected_xor[symmetric] byte_nibbles)
qed

section \<open>The generated tables hold the table entries\<close>

lemma table_index_correct:
  fixes c :: "'a::len tbl_cfg"
  assumes "8 \<le> LENGTH('a)" "length (entries t) = 256"
  shows "basic_table_index (table_generate c t) i =
         (if TBL_REF_REG c then table_entry_reflected (TBL_ACTUAL_POLY c) i 0
          else table_entry_unreflected (TBL_ACTUAL_POLY c) i 0)"
proof -
  have "unat i < 256" using unsigned_less[of i, where 'a=nat] by simp
  then show ?thesis
    using generate_table_unreflected_correct[OF assms, of "TBL_ACTUAL_POLY c"]
      generate_table_reflected_correct[OF assms, of "TBL_ACTUAL_POLY c"]
    by (simp add: basic_table_index_def table_generate_def core_generate_table_def)
qed

lemma small_table_index_correct:
  fixes c :: "'a::len tbl_cfg"
  assumes "8 \<le> LENGTH('a)" "length (first_row t) = 16" "length (first_column t) = 16"
  shows "basic_small_table_index (small_table_generate c t) i =
         (if TBL_REF_REG c then table_entry_reflected (TBL_ACTUAL_POLY c) i 0
          else table_entry_unreflected (TBL_ACTUAL_POLY c) i 0)"
  using generate_small_table_unreflected_correct[OF assms, of "TBL_ACTUAL_POLY c" i]
    generate_small_table_reflected_correct[OF assms, of "TBL_ACTUAL_POLY c" i]
  by (simp add: basic_small_table_index_def small_table_generate_def
      core_generate_small_table_def case_prod_beta)

lemma width_ge_8: "LENGTH('a::len) \<in> {8, 16, 32, 64} \<Longrightarrow> 8 \<le> LENGTH('a)"
  by auto

text \<open>
  C6. For every width in 8, 16, 32, 64, every polynomial in register convention, both
  register conventions and every byte \<open>b\<close>: the small table generated for these
  parameters, read as \<open>first_row[b & 0x0F] XOR first_column[b >> 4]\<close>, gives entry
  \<open>b\<close> of the full table of 256 entries generated for the same parameters.
\<close>

theorem small_table_matches_full_table:
  fixes c :: "'a::len tbl_cfg" and b :: uint8
  assumes "LENGTH('a) \<in> {8, 16, 32, 64}"
  shows "first_row (small_table c) ! unat (b AND 0x0f)
           XOR first_column (small_table c) ! unat (drop_bit 4 b)
         = entries (table c) ! unat b"
proof -
  have "basic_small_table_index (small_table c) b = basic_table_index (table c) b"
    unfolding small_table_def table_def
    using width_ge_8[OF assms]
    by (simp add: small_table_index_correct table_index_correct)
  then show ?thesis
    by (simp add: basic_small_table_index_def basic_table_index_def)
qed

theorem small_table_matches_full_table_witness:
  "LENGTH(16) \<in> {8, 16, 32, 64 :: nat}
   \<and> first_row (small_table \<lparr>TBL_POLY = 0x1021 :: uint16, TBL_REF_REG = True\<rparr>)
         ! unat (0xA7 AND 0x0f :: uint8)
       XOR first_column (small_table \<lparr>TBL_POLY = 0x1021 :: uint16, TBL_REF_REG = True\<rparr>)
         ! unat (drop_bit 4 (0xA7 :: uint8))
     = entries (table \<lparr>TBL_POLY = 0x1021 :: uint16, TBL_REF_REG = True\<rparr>)
         ! unat (0xA7 :: uint8)"
proof -
  have w: "LENGTH(16) \<in> {8, 16, 32, 64 :: nat}" by simp
  show ?thesis
    using w small_table_matches_full_table[OF w,
        of "\<lparr>TBL_POLY = 0x1021 :: uint16, TBL_REF_REG = True\<rparr>" "0xA7"]
    by simp
qed

section \<open>The five modes agree\<close>

lemma core_table_based_update_tableless:
  fixes crc :: "'a::len word"
  assumes len8: "8 \<le> LENGTH('a)"
    and tbl: "\<And>i. tbl i = (if REFLECTED then table_entry_reflected poly i 0
                                else table_entry_unreflected poly i 0)"
  shows "core_table_based_update REFLECTED crc bytes tbl =
         core_tableless_update REFLECTED poly crc bytes"
proof -
  have t: "tbl = (\<lambda>i. if REFLECTED then table_entry_reflected poly i 0
                        else table_entry_unreflected poly i 0)"
    using tbl by (rule ext)
  show ?thesis
  proof (cases REFLECTED)
    case True
    then have "tbl = (\<lambda>i. table_entry_reflected poly i 0)" using t by simp
    with True show ?thesis
      by (simp add: core_table_based_update_def core_tableless_update_def
          tableless_update_reflected_def table_based_crc_updater_reflected[OF len8])
  next
    case False
    then have "tbl = (\<lambda>i. table_entry_unreflected poly i 0)" using t by simp
    with False show ?thesis
      by (simp add: core_table_based_update_def core_tableless_update_def
          tableless_update_unreflected_def table_based_crc_updater_unreflected[OF len8])
  qed
qed

lemma updater_ext_table_based_tableless:
  fixes c :: "'a::len tbl_cfg"
  assumes "8 \<le> LENGTH('a)"
  shows "updater_ext_table_based c crc bytes (table c) = updater_tableless c crc bytes"
  unfolding updater_ext_table_based_def updater_tableless_def table_def
  using assms by (intro core_table_based_update_tableless table_index_correct) simp_all

lemma updater_ext_small_table_based_tableless:
  fixes c :: "'a::len tbl_cfg"
  assumes "8 \<le> LENGTH('a)"
  shows "updater_ext_small_table_based c crc bytes (small_table c) = updater_tableless c crc bytes"
  unfolding updater_ext_small_table_based_def updater_tableless_def small_table_def
  using assms by (intro core_table_based_update_tableless small_table_index_correct) simp_all

lemma updater_table_based_tableless:
  fixes c :: "'a::len tbl_cfg"
  assumes "8 \<le> LENGTH('a)"
  shows "updater_table_based c = updater_tableless c"
  using updater_ext_table_based_tableless[OF assms]
  by (intro ext) (simp add: updater_table_based_def updater_ext_table_based_def)

lemma updater_small_table_based_tableless:
  fixes c :: "'a::len tbl_cfg"
  assumes "8 \<le> LENGTH('a)"
  shows "updater_small_table_based c = updater_tableless c"
  using updater_ext_small_table_based_tableless[OF assms]
  by (intro ext) (simp add: updater_small_table_based_def updater_ext_small_table_based_def)

lemma impl_ext_update_table_tableless:
  fixes c :: "'a::len cfg"
  assumes "8 \<le> LENGTH('a)"
  shows "impl_ext_update c (ext_table_based c) this bytes (table (TBL_CFG c)) =
         impl_update c (tableless c) this bytes"
  by (simp add: impl_ext_update_def impl_update_def impl_ext_input_reverser_def
      impl_input_reverser_def ext_table_based_def tableless_def
      updater_ext_table_based_tableless[OF assms])

lemma impl_ext_update_small_table_tableless:
  fixes c :: "'a::len cfg"
  assumes "8 \<le> LENGTH('a)"
  shows "impl_ext_update c (ext_small_table_based c) this bytes (small_table (TBL_CFG c)) =
         impl_update c (tableless c) this bytes"
  by (simp add: impl_ext_update_def impl_update_def impl_ext_input_reverser_def
      impl_input_reverser_def ext_small_table_based_def tableless_def
      updater_ext_small_table_based_tableless[OF assms])

lemma table_based_tableless:
  fixes c :: "'a::len cfg"
  assumes "8 \<le> LENGTH('a)"
  shows "table_based c = tableless c" and "small_table_based c = tableless c"
  by (simp_all add: table_based_def small_table_based_def tableless_def
      updater_table_based_tableless[OF assms] updater_small_table_based_tableless[OF assms])

text \<open>
  C2. For every model of width 8, 16, 32 or 64 and every input split into a prefix and a
  rest: after the prefix, \<open>interim()\<close> of the table-based, the small-table-based, the
  external-table and the external-small-table mode (the last two with default-constructed
  tables) is the register of the tableless mode, and after the whole input so is
  \<open>final()\<close>. So all five agree.
\<close>

theorem strategy_equivalence:
  fixes c :: "'a::len cfg"
  assumes "LENGTH('a) \<in> {8, 16, 32, 64}"
  shows "impl_interim (impl_update c (table_based c) (impl_init c) pre)
           = impl_interim (impl_update c (tableless c) (impl_init c) pre)
       \<and> impl_interim (impl_update c (small_table_based c) (impl_init c) pre)
           = impl_interim (impl_update c (tableless c) (impl_init c) pre)
       \<and> impl_ext_interim (impl_ext_update c (ext_table_based c) (impl_init c) pre
                            (table (TBL_CFG c)))
           = impl_interim (impl_update c (tableless c) (impl_init c) pre)
       \<and> impl_ext_interim (impl_ext_update c (ext_small_table_based c) (impl_init c) pre
                            (small_table (TBL_CFG c)))
           = impl_interim (impl_update c (tableless c) (impl_init c) pre)
       \<and> impl_final c (impl_update c (table_based c) (impl_init c) (pre @ rest))
           = impl_final c (impl_update c (tableless c) (impl_init c) (pre @ rest))
       \<and> impl_final c (impl_update c (small_table_based c) (impl_init c) (pre @ rest))
           = impl_final c (impl_update c (tableless c) (impl_init c) (pre @ rest))
       \<and> impl_ext_final c (impl_ext_update c (ext_table_based c) (impl_init c) (pre @ rest)
                            (table (TBL_CFG c)))
           = impl_final c (impl_update c (tableless c) (impl_init c) (pre @ rest))
       \<and> impl_ext_final c (impl_ext_update c (ext_small_table_based c) (impl_init c)
                            (pre @ rest) (small_table (TBL_CFG c)))
           = impl_final c (impl_update c (tableless c) (impl_init c) (pre @ rest))"
proof -
  have len8: "8 \<le> LENGTH('a)" using assms by (rule width_ge_8)
  show ?thesis
    by (simp add: table_based_tableless[OF len8] impl_ext_update_table_tableless[OF len8]
        impl_ext_update_small_table_tableless[OF len8] impl_ext_interim_def impl_interim_def
        impl_ext_final_def impl_final_def impl_ext_residue_def impl_residue_def)
qed

theorem strategy_equivalence_witness:
  "LENGTH(16) \<in> {8, 16, 32, 64 :: nat}
   \<and> impl_interim (impl_update (parametric_cfg (0x1021 :: uint16) 0xFFFF 0xFFFF True)
         (small_table_based (parametric_cfg 0x1021 0xFFFF 0xFFFF True))
         (impl_init (parametric_cfg 0x1021 0xFFFF 0xFFFF True)) [0x31, 0x32])
     = impl_interim (impl_update (parametric_cfg (0x1021 :: uint16) 0xFFFF 0xFFFF True)
         (tableless (parametric_cfg 0x1021 0xFFFF 0xFFFF True))
         (impl_init (parametric_cfg 0x1021 0xFFFF 0xFFFF True)) [0x31, 0x32])
   \<and> impl_ext_final (parametric_cfg (0x1021 :: uint16) 0xFFFF 0xFFFF True)
        (impl_ext_update (parametric_cfg 0x1021 0xFFFF 0xFFFF True)
          (ext_table_based (parametric_cfg 0x1021 0xFFFF 0xFFFF True))
          (impl_init (parametric_cfg 0x1021 0xFFFF 0xFFFF True)) ([0x31, 0x32] @ [0x33])
          (table (TBL_CFG (parametric_cfg 0x1021 0xFFFF 0xFFFF True))))
     = impl_final (parametric_cfg (0x1021 :: uint16) 0xFFFF 0xFFFF True)
        (impl_update (parametric_cfg 0x1021 0xFFFF 0xFFFF True)
          (tableless (parametric_cfg 0x1021 0xFFFF 0xFFFF True))
          (impl_init (parametric_cfg 0x1021 0xFFFF 0xFFFF True)) ([0x31, 0x32] @ [0x33]))"
proof -
  have w: "LENGTH(16) \<in> {8, 16, 32, 64 :: nat}" by simp
  show ?thesis
    using w strategy_equivalence[OF w, of "parametric_cfg 0x1021 0xFFFF 0xFFFF True"
        "[0x31, 0x32]" "[0x33]"]
    by blast
qed

section \<open>Streaming and the empty update\<close>

text \<open>
  In every mode \<open>update\<close> is a fold of the byte step over the input, so it composes over
  concatenation and does nothing on the empty input.
\<close>

lemma core_tableless_update_append:
  "core_tableless_update REFLECTED poly crc (A @ B) =
   core_tableless_update REFLECTED poly (core_tableless_update REFLECTED poly crc A) B"
  by (simp add: core_tableless_update_def tableless_update_reflected_def
      tableless_update_unreflected_def)

lemma core_table_based_update_append:
  "core_table_based_update REFLECTED crc (A @ B) tbl =
   core_table_based_update REFLECTED (core_table_based_update REFLECTED crc A tbl) B tbl"
  by (simp add: core_table_based_update_def)

lemma updater_append:
  "updater_tableless tc crc (A @ B) = updater_tableless tc (updater_tableless tc crc A) B"
  "updater_table_based tc crc (A @ B) = updater_table_based tc (updater_table_based tc crc A) B"
  "updater_small_table_based tc crc (A @ B) =
     updater_small_table_based tc (updater_small_table_based tc crc A) B"
  "updater_ext_table_based tc crc (A @ B) t =
     updater_ext_table_based tc (updater_ext_table_based tc crc A t) B t"
  "updater_ext_small_table_based tc crc (A @ B) st =
     updater_ext_small_table_based tc (updater_ext_small_table_based tc crc A st) B st"
  by (simp_all add: updater_tableless_def updater_table_based_def updater_small_table_based_def
      updater_ext_table_based_def updater_ext_small_table_based_def
      core_tableless_update_append core_table_based_update_append)

lemma impl_input_reverser_append:
  assumes "\<And>crc A B. UPDATER crc (A @ B) = UPDATER (UPDATER crc A) B"
  shows "impl_input_reverser REVERSE UPDATER crc (A @ B) =
         impl_input_reverser REVERSE UPDATER (impl_input_reverser REVERSE UPDATER crc A) B"
  using assms by (simp add: impl_input_reverser_def)

lemma impl_ext_input_reverser_append:
  assumes "\<And>crc A B. UPDATER crc (A @ B) t = UPDATER (UPDATER crc A t) B t"
  shows "impl_ext_input_reverser REVERSE UPDATER crc (A @ B) t =
         impl_ext_input_reverser REVERSE UPDATER
           (impl_ext_input_reverser REVERSE UPDATER crc A t) B t"
  using assms by (simp add: impl_ext_input_reverser_def)

text \<open>
  C7. In each of the five modes, for every model, every object and every two byte
  sequences \<open>A\<close> and \<open>B\<close> (an external table, whatever its contents, being the same in
  all calls): \<open>update(A)\<close> followed by \<open>update(B)\<close> leaves the object that a single
  \<open>update\<close> with \<open>A\<close> followed by \<open>B\<close> leaves, hence the same register and the same
  \<open>final()\<close>.
\<close>

theorem update_concatenation:
  fixes c :: "'a::len cfg"
  shows "impl_update c (tableless c) (impl_update c (tableless c) this A) B
           = impl_update c (tableless c) this (A @ B)
       \<and> impl_update c (table_based c) (impl_update c (table_based c) this A) B
           = impl_update c (table_based c) this (A @ B)
       \<and> impl_update c (small_table_based c) (impl_update c (small_table_based c) this A) B
           = impl_update c (small_table_based c) this (A @ B)
       \<and> impl_ext_update c (ext_table_based c)
             (impl_ext_update c (ext_table_based c) this A t) B t
           = impl_ext_update c (ext_table_based c) this (A @ B) t
       \<and> impl_ext_update c (ext_small_table_based c)
             (impl_ext_update c (ext_small_table_based c) this A st) B st
           = impl_ext_update c (ext_small_table_based c) this (A @ B) st
       \<and> impl_final c (impl_update c (tableless c) (impl_update c (tableless c) this A) B)
           = impl_final c (impl_update c (tableless c) this (A @ B))
       \<and> impl_final c (impl_update c (table_based c) (impl_update c (table_based c) this A) B)
           = impl_final c (impl_update c (table_based c) this (A @ B))
       \<and> impl_final c (impl_update c (small_table_based c)
                         (impl_update c (small_table_based c) this A) B)
           = impl_final c (impl_update c (small_table_based c) this (A @ B))
       \<and> impl_ext_final c (impl_ext_update c (ext_table_based c)
                             (impl_ext_update c (ext_table_based c) this A t) B t)
           = impl_ext_final c (impl_ext_update c (ext_table_based c) this (A @ B) t)
       \<and> impl_ext_final c (impl_ext_update c (ext_small_table_based c)
                             (impl_ext_update c (ext_small_table_based c) this A st) B st)
           = impl_ext_final c (impl_ext_update c (ext_small_table_based c) this (A @ B) st)"
proof -
  have 1: "impl_update c (tableless c) (impl_update c (tableless c) this A) B
           = impl_update c (tableless c) this (A @ B)"
    by (simp add: impl_update_def tableless_def
        impl_input_reverser_append[OF updater_append(1)])
  have 2: "impl_update c (table_based c) (impl_update c (table_based c) this A) B
           = impl_update c (table_based c) this (A @ B)"
    by (simp add: impl_update_def table_based_def
        impl_input_reverser_append[OF updater_append(2)])
  have 3: "impl_update c (small_table_based c) (impl_update c (small_table_based c) this A) B
           = impl_update c (small_table_based c) this (A @ B)"
    by (simp add: impl_update_def small_table_based_def
        impl_input_reverser_append[OF updater_append(3)])
  have 4: "impl_ext_update c (ext_table_based c)
             (impl_ext_update c (ext_table_based c) this A t) B t
           = impl_ext_update c (ext_table_based c) this (A @ B) t"
    by (simp add: impl_ext_update_def ext_table_based_def
        impl_ext_input_reverser_append[OF updater_append(4)])
  have 5: "impl_ext_update c (ext_small_table_based c)
             (impl_ext_update c (ext_small_table_based c) this A st) B st
           = impl_ext_update c (ext_small_table_based c) this (A @ B) st"
    by (simp add: impl_ext_update_def ext_small_table_based_def
        impl_ext_input_reverser_append[OF updater_append(5)])
  show ?thesis
    by (simp only: 1 2 3 4 5)
qed


text \<open>
  C10. For every model of width 8, 16, 32 or 64: in each of the five modes \<open>update\<close>
  with an empty range leaves the object as it is (for every external table), and
  \<open>calculate\<close> of the empty sequence is the initial value, bit-reversed if \<open>ref_reg\<close>,
  then bit-reversed within the width if \<open>ref_reg\<close> and \<open>ref_out\<close> differ, XORed with
  \<open>xor_out\<close>.
\<close>

theorem empty_update:
  fixes c :: "'a::len cfg"
  assumes "LENGTH('a) \<in> {8, 16, 32, 64}"
  shows "impl_update c (tableless c) this [] = this
       \<and> impl_update c (table_based c) this [] = this
       \<and> impl_update c (small_table_based c) this [] = this
       \<and> impl_ext_update c (ext_table_based c) this [] t = this
       \<and> impl_ext_update c (ext_small_table_based c) this [] st = this
       \<and> impl_calculate c (tableless c) [] =
           (if REF_REG c \<noteq> REF_OUT c then word_reverse (spec_actual_init c)
            else spec_actual_init c) XOR XOR_OUT c
       \<and> impl_calculate c (table_based c) [] =
           (if REF_REG c \<noteq> REF_OUT c then word_reverse (spec_actual_init c)
            else spec_actual_init c) XOR XOR_OUT c
       \<and> impl_calculate c (small_table_based c) [] =
           (if REF_REG c \<noteq> REF_OUT c then word_reverse (spec_actual_init c)
            else spec_actual_init c) XOR XOR_OUT c
       \<and> impl_ext_calculate c (ext_table_based c) [] t =
           (if REF_REG c \<noteq> REF_OUT c then word_reverse (spec_actual_init c)
            else spec_actual_init c) XOR XOR_OUT c
       \<and> impl_ext_calculate c (ext_small_table_based c) [] st =
           (if REF_REG c \<noteq> REF_OUT c then word_reverse (spec_actual_init c)
            else spec_actual_init c) XOR XOR_OUT c"
proof -
  have upd: "impl_update c (tableless c) this [] = this"
    "impl_update c (table_based c) this [] = this"
    "impl_update c (small_table_based c) this [] = this"
    "impl_ext_update c (ext_table_based c) this [] t = this"
    "impl_ext_update c (ext_small_table_based c) this [] st = this" for this
    by (simp_all add: impl_update_def impl_ext_update_def impl_input_reverser_def
        impl_ext_input_reverser_def tableless_def table_based_def small_table_based_def
        ext_table_based_def ext_small_table_based_def updater_tableless_def
        updater_table_based_def updater_small_table_based_def updater_ext_table_based_def
        updater_ext_small_table_based_def core_tableless_update_def
        core_table_based_update_def tableless_update_reflected_def
        tableless_update_unreflected_def)
  have fin: "impl_final c (impl_init c) =
           (if REF_REG c \<noteq> REF_OUT c then word_reverse (spec_actual_init c)
            else spec_actual_init c) XOR XOR_OUT c"
    by (simp add: impl_final_def impl_residue_def impl_init_def ACTUAL_INIT_def
        conditional_reflect_def spec_actual_init_def reverse_bits_eq[OF assms])
  show ?thesis
    by (simp only: upd impl_calculate_def impl_ext_calculate_def fin impl_ext_final_def
        impl_ext_residue_def impl_final_def[symmetric] impl_residue_def[symmetric])
qed


theorem empty_update_witness:
  "LENGTH(32) \<in> {8, 16, 32, 64 :: nat}
   \<and> impl_update (parametric_cfg (0x04C11DB7 :: uint32) 0xFFFFFFFF 0xFFFFFFFF True)
        (table_based (parametric_cfg 0x04C11DB7 0xFFFFFFFF 0xFFFFFFFF True))
        \<lparr>crc_reg = 0x12345678\<rparr> [] = \<lparr>crc_reg = 0x12345678\<rparr>
   \<and> impl_calculate (parametric_cfg (0x04C11DB7 :: uint32) 0xFFFFFFFF 0xFFFFFFFF True)
        (table_based (parametric_cfg 0x04C11DB7 0xFFFFFFFF 0xFFFFFFFF True)) [] = 0"
proof -
  have w: "LENGTH(32) \<in> {8, 16, 32, 64 :: nat}" by simp
  have m: "(0xFFFFFFFF :: uint32) = - 1" by simp
  have r: "word_reverse (0xFFFFFFFF :: uint32) = 0xFFFFFFFF"
    unfolding m by (rule bit_eqI) (auto simp add: bit_simps)
  show ?thesis
    using empty_update[OF w, of "parametric_cfg 0x04C11DB7 0xFFFFFFFF 0xFFFFFFFF True"
        "\<lparr>crc_reg = 0x12345678\<rparr>"] r
    by (simp add: parametric_cfg_def spec_actual_init_def)
qed

section \<open>Reflected and unreflected registers\<close>

text \<open>
  The reflected register step is the unreflected one seen through the bit reversal: the
  reversal of the register after \<open>n\<close> unreflected steps is the register after \<open>n\<close>
  reflected steps with the reversed polynomial on the reversed register.
\<close>

lemma word_reverse_xor: "word_reverse (a XOR b) = word_reverse a XOR word_reverse b"
  by (rule bit_eqI) (auto simp add: bit_simps)

lemma word_reverse_push_bit_1:
  fixes c :: "'a::len word"
  shows "word_reverse (push_bit 1 c) = drop_bit 1 (word_reverse c)"
proof (rule bit_eqI)
  fix n
  assume "possible_bit TYPE('a word) n"
  then have n: "n < LENGTH('a)" by (simp add: possible_bit_word)
  show "bit (word_reverse (push_bit 1 c)) n = bit (drop_bit 1 (word_reverse c)) n"
  proof (cases "Suc n < LENGTH('a)")
    case True
    then have "LENGTH('a) - Suc n - 1 = LENGTH('a) - Suc (Suc n)" "1 \<le> LENGTH('a) - Suc n"
      "LENGTH('a) - Suc n < LENGTH('a)"
      by simp_all
    with True n show ?thesis by (simp add: bit_simps bit_times2)
  next
    case False
    with n have "LENGTH('a) - Suc n = 0" by simp
    with False n show ?thesis by (simp add: bit_simps bit_times2)
  qed
qed

lemma bbb_loop_reflected_reverse:
  fixes crc :: "'a::len word"
  shows "bbb_loop_reflected n (word_reverse poly) (word_reverse crc) =
         word_reverse (bbb_loop_unreflected n poly crc)"
proof (induction n arbitrary: crc)
  case 0
  then show ?case by simp
next
  case (Suc n)
  have b0: "bit (word_reverse crc) 0 = bit crc (LENGTH('a) - 1)"
    by (simp add: bit_simps)
  have "(if bit (word_reverse crc) 0 then drop_bit 1 (word_reverse crc) XOR word_reverse poly
         else drop_bit 1 (word_reverse crc))
        = word_reverse (if bit crc (LENGTH('a) - 1) then push_bit 1 crc XOR poly
                        else push_bit 1 crc)"
    unfolding b0 by (simp only: word_reverse_xor word_reverse_push_bit_1 if_distrib[of word_reverse])
  then show ?case
    by (simp only: bbb_loop_reflected.simps bbb_loop_unreflected.simps lsb_test msb_mask_test
        Suc.IH)
qed

lemma word_reverse_byte_in_register:
  fixes b :: uint8
  assumes "8 \<le> LENGTH('a::len)"
  shows "word_reverse (push_bit (LENGTH('a) - 8) (ucast b) :: 'a word) = ucast (word_reverse b)"
proof (rule bit_eqI)
  fix n
  assume "possible_bit TYPE('a word) n"
  then have n: "n < LENGTH('a)" by (simp add: possible_bit_word)
  show "bit (word_reverse (push_bit (LENGTH('a) - 8) (ucast b) :: 'a word)) n
        = bit (ucast (word_reverse b) :: 'a word) n"
  proof (cases "n < 8")
    case True
    then have "LENGTH('a) - Suc n - (LENGTH('a) - 8) = 7 - n" "LENGTH('a) - 8 \<le> LENGTH('a) - Suc n"
      "LENGTH('a) - Suc n < LENGTH('a)" "7 - n < 8" "7 - n < LENGTH('a)"
      using assms n by simp_all
    with True n show ?thesis by (simp add: bit_simps)
  next
    case False
    then have "\<not> LENGTH('a) - 8 \<le> LENGTH('a) - Suc n"
      using assms n by simp
    with False n show ?thesis by (simp add: bit_simps)
  qed
qed

lemma bbb_update_reflected_reverse:
  fixes crc :: "'a::len word"
  assumes "8 \<le> LENGTH('a)"
  shows "bbb_update_reflected (word_reverse poly) (word_reverse crc) (word_reverse b) n =
         word_reverse (bbb_update_unreflected poly crc b n)"
  by (simp only: bbb_update_reflected_def bbb_update_unreflected_def
      bbb_loop_reflected_reverse[symmetric] word_reverse_xor
      word_reverse_byte_in_register[OF assms])

lemma tableless_fold_reverse:
  fixes crc :: "'a::len word"
  assumes "8 \<le> LENGTH('a)"
  shows "fold (\<lambda>p crc. bbb_update_reflected (word_reverse poly) crc p 8)
           (map word_reverse bytes) (word_reverse crc)
         = word_reverse (fold (\<lambda>p crc. bbb_update_unreflected poly crc p 8) bytes crc)"
proof (induction bytes arbitrary: crc)
  case Nil
  then show ?case by simp
next
  case (Cons b bytes)
  show ?case
    by (simp add: bbb_update_reflected_reverse[OF assms] Cons.IH)
qed

section \<open>The register convention does not change the result\<close>

lemma TBL_ACTUAL_POLY_TBL_CFG [simp]: "TBL_ACTUAL_POLY (TBL_CFG c) = ACTUAL_POLY c"
  by (simp add: TBL_ACTUAL_POLY_def TBL_CFG_def ACTUAL_POLY_def)

lemma TBL_REF_REG_TBL_CFG [simp]: "TBL_REF_REG (TBL_CFG c) = REF_REG c"
  by (simp add: TBL_CFG_def)

text \<open>The register of the tableless mode after \<open>update\<close>, as a fold of the byte step.\<close>

lemma impl_update_tableless:
  fixes c :: "'a::len cfg"
  shows "crc_reg (impl_update c (tableless c) this bytes) =
    (if REF_REG c
     then fold (\<lambda>p crc. bbb_update_reflected (ACTUAL_POLY c) crc p 8)
            (if REF_IN c \<noteq> REF_REG c then map reverse_bits8 bytes else bytes) (crc_reg this)
     else fold (\<lambda>p crc. bbb_update_unreflected (ACTUAL_POLY c) crc p 8)
            (if REF_IN c \<noteq> REF_REG c then map reverse_bits8 bytes else bytes) (crc_reg this))"
  by (simp add: impl_update_def impl_input_reverser_def tableless_def updater_tableless_def
      core_tableless_update_def tableless_update_reflected_def tableless_update_unreflected_def
      fold_map comp_def)

lemma map_word_reverse_twice [simp]:
  "map (word_reverse \<circ> word_reverse) bytes = bytes"
  "map word_reverse (map word_reverse bytes) = bytes"
  by (simp_all add: comp_def)

lemma impl_update_tableless_flip:
  fixes c :: "'a::len cfg"
  assumes w: "LENGTH('a) \<in> {8, 16, 32, 64}"
  shows "crc_reg (impl_update (c\<lparr>REF_REG := \<not> REF_REG c\<rparr>) (tableless (c\<lparr>REF_REG := \<not> REF_REG c\<rparr>))
                    \<lparr>crc_reg = word_reverse r\<rparr> bytes)
         = word_reverse (crc_reg (impl_update c (tableless c) \<lparr>crc_reg = r\<rparr> bytes))"
proof -
  have len8: "8 \<le> LENGTH('a)" using w by (rule width_ge_8)
  have rb8: "reverse_bits8 = word_reverse" by (rule ext) (rule reverse_bits8_eq)
  note A = tableless_fold_reverse[OF len8]
  show ?thesis
  proof (cases "REF_REG c")
    case True
    have "fold (\<lambda>p crc. bbb_update_reflected (word_reverse (POLY c)) crc p 8) bs r
          = word_reverse (fold (\<lambda>p crc. bbb_update_unreflected (POLY c) crc p 8)
              (map word_reverse bs) (word_reverse r))" for bs
      using A[of "POLY c" "map word_reverse bs" "word_reverse r"] by simp
    with True show ?thesis
      by (simp add: impl_update_tableless ACTUAL_POLY_def conditional_reflect_def
          reverse_bits_eq[OF w] rb8)
  next
    case False
    then show ?thesis
      using A[of "POLY c" bytes r] A[of "POLY c" "map word_reverse bytes" r]
      by (simp add: impl_update_tableless ACTUAL_POLY_def conditional_reflect_def
          reverse_bits_eq[OF w] rb8)
  qed
qed

lemma impl_calculate_tableless_flip:
  fixes c :: "'a::len cfg"
  assumes w: "LENGTH('a) \<in> {8, 16, 32, 64}"
  shows "impl_calculate (c\<lparr>REF_REG := \<not> REF_REG c\<rparr>) (tableless (c\<lparr>REF_REG := \<not> REF_REG c\<rparr>)) bytes
         = impl_calculate c (tableless c) bytes"
proof -
  let ?c' = "c\<lparr>REF_REG := \<not> REF_REG c\<rparr>"
  have init: "impl_init ?c' = \<lparr>crc_reg = word_reverse (crc_reg (impl_init c))\<rparr>"
    by (simp add: impl_init_def ACTUAL_INIT_def conditional_reflect_def reverse_bits_eq[OF w])
  have "crc_reg (impl_update ?c' (tableless ?c') (impl_init ?c') bytes)
        = word_reverse (crc_reg (impl_update c (tableless c) (impl_init c) bytes))"
    unfolding init using impl_update_tableless_flip[OF w, of c "crc_reg (impl_init c)" bytes]
    by (simp add: impl_init_def)
  then show ?thesis
    by (auto simp add: impl_calculate_def impl_final_def impl_residue_def conditional_reflect_def
        reverse_bits_eq[OF w])
qed

text \<open>
  C3. For every model of width 8, 16, 32 or 64 and every input, \<open>calculate\<close> gives the
  same value with \<open>ref_reg = ref_in\<close> and with \<open>ref_reg = !ref_in\<close>, all other parameters
  unchanged: in the table-based mode (the class \<open>parametric\<close> itself), in the tableless
  and the small-table mode, and in the two external-table modes with default-constructed
  tables.
\<close>

theorem register_convention_invariance:
  fixes c :: "'a::len cfg"
  assumes "LENGTH('a) \<in> {8, 16, 32, 64}"
  shows "impl_calculate (c\<lparr>REF_REG := REF_IN c\<rparr>) (table_based (c\<lparr>REF_REG := REF_IN c\<rparr>)) bytes
         = impl_calculate (c\<lparr>REF_REG := \<not> REF_IN c\<rparr>)
             (table_based (c\<lparr>REF_REG := \<not> REF_IN c\<rparr>)) bytes
       \<and> impl_calculate (c\<lparr>REF_REG := REF_IN c\<rparr>) (tableless (c\<lparr>REF_REG := REF_IN c\<rparr>)) bytes
         = impl_calculate (c\<lparr>REF_REG := \<not> REF_IN c\<rparr>)
             (tableless (c\<lparr>REF_REG := \<not> REF_IN c\<rparr>)) bytes
       \<and> impl_calculate (c\<lparr>REF_REG := REF_IN c\<rparr>)
             (small_table_based (c\<lparr>REF_REG := REF_IN c\<rparr>)) bytes
         = impl_calculate (c\<lparr>REF_REG := \<not> REF_IN c\<rparr>)
             (small_table_based (c\<lparr>REF_REG := \<not> REF_IN c\<rparr>)) bytes
       \<and> impl_ext_calculate (c\<lparr>REF_REG := REF_IN c\<rparr>)
             (ext_table_based (c\<lparr>REF_REG := REF_IN c\<rparr>)) bytes
             (table (TBL_CFG (c\<lparr>REF_REG := REF_IN c\<rparr>)))
         = impl_ext_calculate (c\<lparr>REF_REG := \<not> REF_IN c\<rparr>)
             (ext_table_based (c\<lparr>REF_REG := \<not> REF_IN c\<rparr>)) bytes
             (table (TBL_CFG (c\<lparr>REF_REG := \<not> REF_IN c\<rparr>)))
       \<and> impl_ext_calculate (c\<lparr>REF_REG := REF_IN c\<rparr>)
             (ext_small_table_based (c\<lparr>REF_REG := REF_IN c\<rparr>)) bytes
             (small_table (TBL_CFG (c\<lparr>REF_REG := REF_IN c\<rparr>)))
         = impl_ext_calculate (c\<lparr>REF_REG := \<not> REF_IN c\<rparr>)
             (ext_small_table_based (c\<lparr>REF_REG := \<not> REF_IN c\<rparr>)) bytes
             (small_table (TBL_CFG (c\<lparr>REF_REG := \<not> REF_IN c\<rparr>)))"
proof -
  have len8: "8 \<le> LENGTH('a)" using assms by (rule width_ge_8)
  have ext: "impl_ext_calculate d (ext_table_based d) bytes (table (TBL_CFG d))
               = impl_calculate d (tableless d) bytes"
      "impl_ext_calculate d (ext_small_table_based d) bytes (small_table (TBL_CFG d))
               = impl_calculate d (tableless d) bytes" for d :: "'a cfg"
    by (simp_all add: impl_ext_calculate_def impl_calculate_def impl_ext_final_def impl_final_def
        impl_ext_residue_def impl_residue_def impl_ext_update_table_tableless[OF len8]
        impl_ext_update_small_table_tableless[OF len8])
  have flip: "impl_calculate (c\<lparr>REF_REG := REF_IN c\<rparr>) (tableless (c\<lparr>REF_REG := REF_IN c\<rparr>)) bytes
         = impl_calculate (c\<lparr>REF_REG := \<not> REF_IN c\<rparr>)
             (tableless (c\<lparr>REF_REG := \<not> REF_IN c\<rparr>)) bytes"
    using impl_calculate_tableless_flip[OF assms, of "c\<lparr>REF_REG := REF_IN c\<rparr>" bytes]
    by simp
  show ?thesis
    by (simp only: table_based_tableless[OF len8] ext flip)
qed

theorem register_convention_invariance_witness:
  "LENGTH(32) \<in> {8, 16, 32, 64 :: nat}
   \<and> impl_calculate \<lparr>POLY = 0x04C11DB7 :: uint32, INIT = 0xFFFFFFFF, XOR_OUT = 0xFFFFFFFF,
                      REF_IN = True, REF_OUT = True, REF_REG = True\<rparr>
        (table_based \<lparr>POLY = 0x04C11DB7 :: uint32, INIT = 0xFFFFFFFF, XOR_OUT = 0xFFFFFFFF,
                      REF_IN = True, REF_OUT = True, REF_REG = True\<rparr>) [0x31, 0x32, 0x33]
     = impl_calculate \<lparr>POLY = 0x04C11DB7 :: uint32, INIT = 0xFFFFFFFF, XOR_OUT = 0xFFFFFFFF,
                      REF_IN = True, REF_OUT = True, REF_REG = False\<rparr>
        (table_based \<lparr>POLY = 0x04C11DB7 :: uint32, INIT = 0xFFFFFFFF, XOR_OUT = 0xFFFFFFFF,
                      REF_IN = True, REF_OUT = True, REF_REG = False\<rparr>) [0x31, 0x32, 0x33]"
proof -
  have w: "LENGTH(32) \<in> {8, 16, 32, 64 :: nat}" by simp
  show ?thesis
    using w register_convention_invariance[OF w,
        of "\<lparr>POLY = 0x04C11DB7 :: uint32, INIT = 0xFFFFFFFF, XOR_OUT = 0xFFFFFFFF,
             REF_IN = True, REF_OUT = True, REF_REG = True\<rparr>" "[0x31, 0x32, 0x33]"]
    by simp
qed

section \<open>The residue constant and the finalisation\<close>

lemma bbb_loop_unreflected_funpow:
  "bbb_loop_unreflected n poly crc = (spec_register_step False poly ^^ n) crc"
proof (induction n arbitrary: crc)
  case 0
  then show ?case by simp
next
  case (Suc n)
  have "bbb_loop_unreflected (Suc n) poly crc =
        bbb_loop_unreflected n poly (spec_register_step False poly crc)"
    by (simp only: bbb_loop_unreflected.simps msb_mask_test spec_register_step_def if_False)
  then show ?case
    by (simp only: Suc.IH funpow_Suc_right comp_apply)
qed

lemma bbb_loop_reflected_funpow:
  "bbb_loop_reflected n poly crc = (spec_register_step True poly ^^ n) crc"
proof (induction n arbitrary: crc)
  case 0
  then show ?case by simp
next
  case (Suc n)
  have "bbb_loop_reflected (Suc n) poly crc =
        bbb_loop_reflected n poly (spec_register_step True poly crc)"
    by (simp only: bbb_loop_reflected.simps lsb_test spec_register_step_def if_True)
  then show ?case
    by (simp only: Suc.IH funpow_Suc_right comp_apply)
qed

text \<open>
  C5. For every model of width 8, 16, 32 or 64 the constant \<open>RESIDUE\<close> is the value
  derived as the specification says: start from \<open>xor_out\<close>, reverse the bits within the
  width if \<open>ref_reg\<close> and \<open>ref_out\<close> differ, apply the register step for the polynomial
  \<open>actual_poly\<close> exactly \<open>width\<close> times (the wide update with the word 0), and reverse
  the bits if \<open>ref_reg\<close> and \<open>ref_in\<close> differ.
\<close>

theorem residue_derivation:
  fixes c :: "'a::len cfg"
  assumes "LENGTH('a) \<in> {8, 16, 32, 64}"
  shows "RESIDUE c = spec_residue c"
  by (simp add: RESIDUE_def residue_const_def spec_residue_def Let_def conditional_reflect_def
      reverse_bits_eq[OF assms] core_bbb_update_wide_def bbb_update_wide_reflected_def
      bbb_update_wide_unreflected_def bbb_loop_reflected_funpow bbb_loop_unreflected_funpow
      ACTUAL_POLY_def spec_actual_poly_def)

theorem residue_derivation_witness:
  "LENGTH(8) \<in> {8, 16, 32, 64 :: nat}
   \<and> RESIDUE (parametric_cfg (0x1D :: uint8) 0xFF 0xFF False)
     = spec_residue (parametric_cfg (0x1D :: uint8) 0xFF 0xFF False)"
proof -
  have w: "LENGTH(8) \<in> {8, 16, 32, 64 :: nat}" by simp
  show ?thesis
    using w residue_derivation[OF w, of "parametric_cfg 0x1D 0xFF 0xFF False"] by simp
qed

text \<open>
  C8. For every model of width 8, 16, 32 or 64 and every object (every register value):
  \<open>final()\<close> is \<open>residue()\<close> XOR \<open>xor_out\<close>, and \<open>residue()\<close> is the register with its
  bits reversed within the width if and only if \<open>ref_out\<close> differs from the register
  convention, in \<open>impl\<close>, in \<open>impl_ext\<close> and in the class of the mini library, whose
  register convention is \<open>ref_in\<close>. Both member functions are \<open>const\<close>: they are functions
  of the object that return the value only, so the object after the call is the object
  before it.
\<close>

theorem final_and_residue:
  fixes c :: "'a::len cfg" and mc :: "'a mini_cfg"
  assumes "LENGTH('a) \<in> {8, 16, 32, 64}"
  shows "impl_final c this = impl_residue c this XOR XOR_OUT c
       \<and> impl_residue c this =
           (if REF_OUT c \<noteq> REF_REG c then word_reverse (crc_reg this) else crc_reg this)
       \<and> impl_ext_final c this = impl_ext_residue c this XOR XOR_OUT c
       \<and> impl_ext_residue c this =
           (if REF_OUT c \<noteq> REF_REG c then word_reverse (crc_reg this) else crc_reg this)
       \<and> mini_final mc m = mini_residue mc m XOR M_XOR_OUT mc
       \<and> mini_residue mc m =
           (if M_REF_OUT mc \<noteq> M_REF_IN mc then word_reverse (mini_crc_reg m)
            else mini_crc_reg m)"
  by (auto simp add: impl_final_def impl_residue_def impl_ext_final_def impl_ext_residue_def
      mini_final_def mini_residue_def conditional_reflect_def reverse_bits_eq[OF assms]
      mini_reverse_bits_eq[OF assms])


theorem final_and_residue_witness:
  "LENGTH(16) \<in> {8, 16, 32, 64 :: nat}
   \<and> impl_final \<lparr>POLY = 0x1021 :: uint16, INIT = 0, XOR_OUT = 0xFFFF,
                  REF_IN = False, REF_OUT = True, REF_REG = False\<rparr> \<lparr>crc_reg = 0x0001\<rparr>
     = impl_residue \<lparr>POLY = 0x1021 :: uint16, INIT = 0, XOR_OUT = 0xFFFF,
                  REF_IN = False, REF_OUT = True, REF_REG = False\<rparr> \<lparr>crc_reg = 0x0001\<rparr>
       XOR 0xFFFF
   \<and> impl_residue \<lparr>POLY = 0x1021 :: uint16, INIT = 0, XOR_OUT = 0xFFFF,
                  REF_IN = False, REF_OUT = True, REF_REG = False\<rparr> \<lparr>crc_reg = 0x0001\<rparr>
     = word_reverse 0x0001
   \<and> mini_residue \<lparr>M_POLY = 0x1021 :: uint16, M_INIT = 0, M_XOR_OUT = 0xFFFF,
                  M_REF_IN = True, M_REF_OUT = True\<rparr> \<lparr>mini_crc_reg = 0x0001\<rparr>
     = 0x0001"
proof -
  have w: "LENGTH(16) \<in> {8, 16, 32, 64 :: nat}" by simp
  show ?thesis
    using w final_and_residue[OF w,
        of "\<lparr>POLY = 0x1021 :: uint16, INIT = 0, XOR_OUT = 0xFFFF,
             REF_IN = False, REF_OUT = True, REF_REG = False\<rparr>" "\<lparr>crc_reg = 0x0001\<rparr>"
           "\<lparr>M_POLY = 0x1021 :: uint16, M_INIT = 0, M_XOR_OUT = 0xFFFF,
             M_REF_IN = True, M_REF_OUT = True\<rparr>" "\<lparr>mini_crc_reg = 0x0001\<rparr>"]
    by simp
qed

section \<open>The mini library\<close>

text \<open>
  The mini library builds its table with the reflected step and reverses the entries for
  an unreflected register; the table and the byte step are those of the full library.
\<close>

lemma lookup_table_loop_eq: "lookup_table_loop n REF_POLY entry = bbb_loop_reflected n REF_POLY entry"
  by (induction n arbitrary: entry) simp_all

lemma ucast_byte_of_nat:
  assumes "8 \<le> LENGTH('a::len)"
  shows "(ucast (word_of_nat j :: uint8) :: 'a word) = word_of_nat (take_bit 8 j)"
  by (rule bit_eqI) (use assms in \<open>auto simp add: bit_simps\<close>)

lemma lookup_table_nth:
  fixes POLY :: "'a::len word"
  assumes w: "LENGTH('a) \<in> {8, 16, 32, 64}" and j: "j < 256"
  shows "lookup_table (mini_reverse_bits POLY) REF ! j =
         (if REF then table_entry_reflected (word_reverse POLY) (word_of_nat j) 0
          else table_entry_unreflected POLY (word_of_nat j) 0)"
proof -
  have len8: "8 \<le> LENGTH('a)" using w by (rule width_ge_8)
  let ?b = "word_of_nat j :: uint8"
  have unrefl: "word_reverse (bbb_loop_reflected 8 (word_reverse POLY) (ucast (word_reverse ?b)))
                = table_entry_unreflected POLY ?b 0"
    by (simp only: word_reverse_byte_in_register[OF len8, symmetric] bbb_loop_reflected_reverse
        word_rev_rev table_entry_unreflected_0)
  have refl: "bbb_loop_reflected 8 (word_reverse POLY) (word_of_nat j)
              = table_entry_reflected (word_reverse POLY) ?b 0"
    using j by (simp add: table_entry_reflected_0 ucast_byte_of_nat[OF len8] take_bit_nat_eq_self)
  show ?thesis
    using j unrefl refl
    by (simp add: lookup_table_def fold_fill_nth Let_def lookup_table_loop_eq
        mini_reverse_bits_eq[OF w] reverse_bits8_eq)
qed

lemma lookup_table_length [simp]: "length (lookup_table REF_POLY REF) = 256"
  by (simp add: lookup_table_def)

text \<open>The table of the mini library is the table of the full library.\<close>

lemma mini_table_eq:
  fixes mc :: "'a::len mini_cfg"
  assumes w: "LENGTH('a) \<in> {8, 16, 32, 64}"
  shows "mini_table mc = entries (table (TBL_CFG (cfg_of_mini mc)))"
proof (rule nth_equalityI)
  have len8: "8 \<le> LENGTH('a)" using w by (rule width_ge_8)
  let ?tc = "TBL_CFG (cfg_of_mini mc)"
  have gen: "length (entries (table ?tc)) = 256 \<and>
        (\<forall>j<256. entries (table ?tc) ! j =
           (if M_REF_IN mc then table_entry_reflected (word_reverse (M_POLY mc)) (word_of_nat j) 0
            else table_entry_unreflected (M_POLY mc) (word_of_nat j) 0))"
    using generate_table_unreflected_correct[OF len8, of "replicate 256 0" "M_POLY mc"]
      generate_table_reflected_correct[OF len8, of "replicate 256 0" "word_reverse (M_POLY mc)"]
    by (simp add: table_def table_generate_def core_generate_table_def TBL_ACTUAL_POLY_def
        TBL_CFG_def cfg_of_mini_def conditional_reflect_def reverse_bits_eq[OF w])
  then show "length (mini_table mc) = length (entries (table ?tc))"
    by (simp add: mini_table_def)
  fix i assume "i < length (mini_table mc)"
  then have "i < 256" by (simp add: mini_table_def)
  with gen show "mini_table mc ! i = entries (table ?tc) ! i"
    by (simp add: mini_table_def lookup_table_nth[OF w])
qed

lemma mini_step_reflected:
  fixes crc POLY :: "'a::len word"
  assumes w: "LENGTH('a) \<in> {8, 16, 32, 64}"
  shows "lookup_table (word_reverse POLY) True ! unat ((ucast crc :: uint8) XOR p)
           XOR drop_bit 8 crc
         = bbb_update_reflected (word_reverse POLY) crc p 8"
proof -
  have len8: "8 \<le> LENGTH('a)" using w by (rule width_ge_8)
  let ?i = "(ucast crc :: uint8) XOR p"
  have "unat ?i < 256" using unsigned_less[of ?i, where 'a=nat] by simp
  then have "lookup_table (word_reverse POLY) True ! unat ?i
             = table_entry_reflected (word_reverse POLY) ?i 0"
    using lookup_table_nth[OF w, of "unat ?i" POLY True]
    by (simp add: mini_reverse_bits_eq[OF w])
  moreover have m: "(0xff :: 'a word) = mask 8" by (simp add: mask_eq_exp_minus_1)
  have "(ucast ((crc AND 0xff) XOR ucast p) :: uint8) = ?i"
    unfolding m by (rule bit_eqI) (use len8 in \<open>auto simp add: bit_simps\<close>)
  ultimately show ?thesis
    by (simp add: bbb_update_reflected_table[OF len8])
qed

lemma mini_step_unreflected:
  fixes crc POLY :: "'a::len word"
  assumes w: "LENGTH('a) \<in> {8, 16, 32, 64}"
  shows "lookup_table (word_reverse POLY) False
             ! unat (drop_bit (LENGTH('a) - 8) crc XOR ucast (p :: uint8))
           XOR push_bit 8 crc
         = bbb_update_unreflected POLY crc p 8"
proof -
  have len8: "8 \<le> LENGTH('a)" using w by (rule width_ge_8)
  let ?X = "drop_bit (LENGTH('a) - 8) crc XOR ucast p"
  let ?i = "ucast ?X :: uint8"
  have "take_bit 8 ?X = ?X"
  proof (rule bit_eqI)
    fix n
    show "bit (take_bit 8 ?X) n = bit ?X n"
    proof (cases "n < 8")
      case True
      then show ?thesis by (simp add: bit_simps)
    next
      case False
      then have "\<not> bit crc (LENGTH('a) - 8 + n)" "\<not> bit p n"
        using len8 by (auto dest!: bit_imp_le_length)
      with False show ?thesis by (simp add: bit_simps)
    qed
  qed
  then have "unat ?X = unat (take_bit 8 ?X)" by simp
  also have "\<dots> = take_bit 8 (unat ?X)"
    by (rule unsigned_take_bit_eq)
  also have "\<dots> = unat ?i"
    using unsigned_ucast_eq[of ?X, where 'c=8 and 'a=nat] by simp
  finally have idx: "unat ?X = unat ?i" .
  have "unat ?i < 256" using unsigned_less[of ?i, where 'a=nat] by simp
  then have "lookup_table (word_reverse POLY) False ! unat ?i
             = table_entry_unreflected POLY ?i 0"
    using lookup_table_nth[OF w, of "unat ?i" POLY False]
    by (simp add: mini_reverse_bits_eq[OF w])
  then show ?thesis
    unfolding idx by (simp add: bbb_update_unreflected_table[OF len8])
qed

lemma base_calculate_interim:
  fixes mc :: "'a::len mini_cfg"
  assumes w: "LENGTH('a) \<in> {8, 16, 32, 64}"
  shows "base_calculate mc bytes True r =
         crc_reg (impl_update (cfg_of_mini mc) (tableless (cfg_of_mini mc)) \<lparr>crc_reg = r\<rparr> bytes)"
  by (simp add: base_calculate_def Let_def impl_update_tableless cfg_of_mini_def ACTUAL_POLY_def
      conditional_reflect_def reverse_bits_eq[OF w] mini_step_reflected[OF w]
      mini_step_unreflected[OF w] mini_reverse_bits_eq[OF w])

lemma base_calculate_final:
  fixes mc :: "'a::len mini_cfg"
  assumes w: "LENGTH('a) \<in> {8, 16, 32, 64}"
  shows "base_calculate mc bytes False r =
         impl_final (cfg_of_mini mc)
           (impl_update (cfg_of_mini mc) (tableless (cfg_of_mini mc)) \<lparr>crc_reg = r\<rparr> bytes)"
  by (simp add: base_calculate_def Let_def impl_update_tableless cfg_of_mini_def ACTUAL_POLY_def
      conditional_reflect_def reverse_bits_eq[OF w] mini_step_reflected[OF w]
      mini_step_unreflected[OF w] impl_final_def impl_residue_def mini_reverse_bits_eq[OF w])

text \<open>
  C9. For every model of the mini library of width 8, 16, 32 or 64, every input and every
  register value \<open>r\<close>: \<open>calculate\<close>, the initial register, the register after \<open>update\<close>
  (\<open>interim()\<close>), \<open>residue()\<close> and \<open>final()\<close> of the mini library are those of the
  table-based mode of the full library for the same parameters and \<open>ref_reg = ref_in\<close>,
  and the lookup table of the mini library is, entry by entry, the table of 256 entries
  that the full library generates.
\<close>

theorem mini_agrees_with_full:
  fixes mc :: "'a::len mini_cfg"
  assumes "LENGTH('a) \<in> {8, 16, 32, 64}"
  shows "mini_calculate mc bytes
           = impl_calculate (cfg_of_mini mc) (table_based (cfg_of_mini mc)) bytes
       \<and> mini_interim (mini_init mc) = impl_interim (impl_init (cfg_of_mini mc))
       \<and> mini_interim (mini_update mc \<lparr>mini_crc_reg = r\<rparr> bytes)
           = impl_interim (impl_update (cfg_of_mini mc) (table_based (cfg_of_mini mc))
                             \<lparr>crc_reg = r\<rparr> bytes)
       \<and> mini_residue mc \<lparr>mini_crc_reg = r\<rparr> = impl_residue (cfg_of_mini mc) \<lparr>crc_reg = r\<rparr>
       \<and> mini_final mc \<lparr>mini_crc_reg = r\<rparr> = impl_final (cfg_of_mini mc) \<lparr>crc_reg = r\<rparr>
       \<and> mini_table mc = entries (table (TBL_CFG (cfg_of_mini mc)))"
proof -
  have len8: "8 \<le> LENGTH('a)" using assms by (rule width_ge_8)
  have init: "(if M_REF_IN mc then mini_reverse_bits (M_INIT mc) else M_INIT mc)
              = crc_reg (impl_init (cfg_of_mini mc))"
    by (simp add: impl_init_def ACTUAL_INIT_def cfg_of_mini_def conditional_reflect_def
        reverse_bits_eq[OF assms] mini_reverse_bits_eq[OF assms])
  have 1: "mini_calculate mc bytes
           = impl_calculate (cfg_of_mini mc) (table_based (cfg_of_mini mc)) bytes"
    by (simp add: mini_calculate_def init base_calculate_final[OF assms] impl_calculate_def
        table_based_tableless[OF len8] impl_init_def)
  have 2: "mini_interim (mini_init mc) = impl_interim (impl_init (cfg_of_mini mc))"
    by (simp add: mini_interim_def mini_init_def init impl_interim_def)
  have 3: "mini_interim (mini_update mc \<lparr>mini_crc_reg = r\<rparr> bytes)
           = impl_interim (impl_update (cfg_of_mini mc) (table_based (cfg_of_mini mc))
                             \<lparr>crc_reg = r\<rparr> bytes)"
    by (simp add: mini_interim_def mini_update_def base_calculate_interim[OF assms]
        impl_interim_def table_based_tableless[OF len8])
  have 4: "mini_residue mc \<lparr>mini_crc_reg = r\<rparr> = impl_residue (cfg_of_mini mc) \<lparr>crc_reg = r\<rparr>"
    by (simp add: mini_residue_def impl_residue_def cfg_of_mini_def conditional_reflect_def
        reverse_bits_eq[OF assms] mini_reverse_bits_eq[OF assms])
  have 5: "mini_final mc \<lparr>mini_crc_reg = r\<rparr> = impl_final (cfg_of_mini mc) \<lparr>crc_reg = r\<rparr>"
    by (simp add: mini_final_def impl_final_def 4) (simp add: cfg_of_mini_def)
  show ?thesis
    using 1 2 3 4 5 mini_table_eq[OF assms, of mc] by blast
qed

theorem mini_agrees_with_full_witness:
  "LENGTH(32) \<in> {8, 16, 32, 64 :: nat}
   \<and> mini_calculate \<lparr>M_POLY = 0x04C11DB7 :: uint32, M_INIT = 0xFFFFFFFF, M_XOR_OUT = 0xFFFFFFFF,
                      M_REF_IN = False, M_REF_OUT = False\<rparr> [0x31, 0x32, 0x33]
     = impl_calculate (parametric_cfg (0x04C11DB7 :: uint32) 0xFFFFFFFF 0xFFFFFFFF False)
         (table_based (parametric_cfg 0x04C11DB7 0xFFFFFFFF 0xFFFFFFFF False)) [0x31, 0x32, 0x33]
   \<and> mini_table \<lparr>M_POLY = 0x04C11DB7 :: uint32, M_INIT = 0xFFFFFFFF, M_XOR_OUT = 0xFFFFFFFF,
                  M_REF_IN = False, M_REF_OUT = False\<rparr>
     = entries (table (TBL_CFG (parametric_cfg (0x04C11DB7 :: uint32) 0xFFFFFFFF 0xFFFFFFFF False)))"
proof -
  have w: "LENGTH(32) \<in> {8, 16, 32, 64 :: nat}" by simp
  show ?thesis
    using w mini_agrees_with_full[OF w,
        of "\<lparr>M_POLY = 0x04C11DB7 :: uint32, M_INIT = 0xFFFFFFFF, M_XOR_OUT = 0xFFFFFFFF,
             M_REF_IN = False, M_REF_OUT = False\<rparr>" "[0x31, 0x32, 0x33]"]
    by (simp add: cfg_of_mini_def parametric_cfg_def)
qed

section \<open>The catalogue check\<close>

text \<open>
  The values are computed in the tableless mode, step by step on numerals, and carried
  over to the table-based mode.
\<close>

lemma bbb_loop_unreflected_Suc:
  "bbb_loop_unreflected (Suc n) poly crc =
   bbb_loop_unreflected n poly
     (if bit crc (LENGTH('a) - 1) then push_bit 1 crc XOR poly else push_bit 1 (crc :: 'a::len word))"
  by (simp only: bbb_loop_unreflected.simps msb_mask_test)

lemma bbb_loop_reflected_Suc:
  "bbb_loop_reflected (Suc n) poly crc =
   bbb_loop_reflected n poly
     (if bit crc 0 then drop_bit 1 crc XOR poly else drop_bit 1 (crc :: 'a::len word))"
  by (simp only: bbb_loop_reflected.simps lsb_test)

lemma bbb_loop_unreflected_unroll:
  "bbb_loop_unreflected (numeral k) poly crc =
   bbb_loop_unreflected (pred_numeral k) poly
     (if bit crc (LENGTH('a) - 1) then push_bit 1 crc XOR poly else push_bit 1 (crc :: 'a::len word))"
proof -
  have "numeral k = Suc (pred_numeral k)" by (rule numeral_eq_Suc)
  then have "bbb_loop_unreflected (numeral k) poly crc =
             bbb_loop_unreflected (Suc (pred_numeral k)) poly crc"
    by (rule arg_cong[where f = "\<lambda>n. bbb_loop_unreflected n poly crc"])
  also note bbb_loop_unreflected_Suc
  finally show ?thesis .
qed

lemma bbb_loop_reflected_unroll:
  "bbb_loop_reflected (numeral k) poly crc =
   bbb_loop_reflected (pred_numeral k) poly
     (if bit crc 0 then drop_bit 1 crc XOR poly else drop_bit 1 (crc :: 'a::len word))"
proof -
  have "numeral k = Suc (pred_numeral k)" by (rule numeral_eq_Suc)
  then have "bbb_loop_reflected (numeral k) poly crc =
             bbb_loop_reflected (Suc (pred_numeral k)) poly crc"
    by (rule arg_cong[where f = "\<lambda>n. bbb_loop_reflected n poly crc"])
  also note bbb_loop_reflected_Suc
  finally show ?thesis .
qed

text \<open>The unrolling is used on registers that are numerals only: on a symbolic register
  it would double the term with every step.\<close>

lemmas bbb_loop_numeral =
  bbb_loop_unreflected_unroll[of _ _ "numeral v"] bbb_loop_unreflected_unroll[of _ _ 1]
  bbb_loop_reflected_unroll[of _ _ "numeral v"] bbb_loop_reflected_unroll[of _ _ 1]
  bbb_loop_unreflected_Suc[of _ _ "numeral v"] bbb_loop_unreflected_Suc[of _ _ 1]
  bbb_loop_reflected_Suc[of _ _ "numeral v"] bbb_loop_reflected_Suc[of _ _ 1]
  for v

lemmas crc_eval = impl_calculate_def impl_final_def impl_residue_def impl_init_def
  impl_update_tableless parametric_cfg_def ACTUAL_INIT_def ACTUAL_POLY_def conditional_reflect_def
  bbb_update_reflected_def bbb_update_unreflected_def check_input_def bbb_loop_numeral
  reverse_bits_def reverse_bits64_def reverse_bits32_def reverse_bits16_def Let_def
  RESIDUE_def residue_const_def core_bbb_update_wide_def bbb_update_wide_reflected_def
  bbb_update_wide_unreflected_def

lemma crc8_smbus_check: "impl_calculate crc8_smbus (tableless crc8_smbus) check_input = 0xF4"
  by (simp add: crc8_smbus_def crc_eval
      del: bbb_loop_unreflected.simps(2) bbb_loop_reflected.simps(2))

lemma crc8_smbus_residue: "RESIDUE crc8_smbus = 0x00"
  by (simp add: crc8_smbus_def crc_eval
      del: bbb_loop_unreflected.simps(2) bbb_loop_reflected.simps(2))

lemma crc8_sae_j1850_check: "impl_calculate crc8_sae_j1850 (tableless crc8_sae_j1850) check_input = 0x4B"
  by (simp add: crc8_sae_j1850_def crc_eval
      del: bbb_loop_unreflected.simps(2) bbb_loop_reflected.simps(2))

lemma crc8_sae_j1850_residue: "RESIDUE crc8_sae_j1850 = 0xC4"
  by (simp add: crc8_sae_j1850_def crc_eval
      del: bbb_loop_unreflected.simps(2) bbb_loop_reflected.simps(2))

lemma crc16_kermit_check: "impl_calculate crc16_kermit (tableless crc16_kermit) check_input = 0x2189"
  by (simp add: crc16_kermit_def crc_eval
      del: bbb_loop_unreflected.simps(2) bbb_loop_reflected.simps(2))

lemma crc16_kermit_residue: "RESIDUE crc16_kermit = 0x0000"
  by (simp add: crc16_kermit_def crc_eval
      del: bbb_loop_unreflected.simps(2) bbb_loop_reflected.simps(2))

lemma crc16_ibm_sdlc_check: "impl_calculate crc16_ibm_sdlc (tableless crc16_ibm_sdlc) check_input = 0x906E"
  by (simp add: crc16_ibm_sdlc_def crc_eval
      del: bbb_loop_unreflected.simps(2) bbb_loop_reflected.simps(2))

lemma crc16_ibm_sdlc_residue: "RESIDUE crc16_ibm_sdlc = 0xF0B8"
  by (simp add: crc16_ibm_sdlc_def crc_eval
      del: bbb_loop_unreflected.simps(2) bbb_loop_reflected.simps(2))

lemma crc32_iso_hdlc_check: "impl_calculate crc32_iso_hdlc (tableless crc32_iso_hdlc) check_input = 0xCBF43926"
  by (simp add: crc32_iso_hdlc_def crc_eval
      del: bbb_loop_unreflected.simps(2) bbb_loop_reflected.simps(2))

lemma crc32_iso_hdlc_residue: "RESIDUE crc32_iso_hdlc = 0xDEBB20E3"
  by (simp add: crc32_iso_hdlc_def crc_eval
      del: bbb_loop_unreflected.simps(2) bbb_loop_reflected.simps(2))

lemma crc32_bzip2_check: "impl_calculate crc32_bzip2 (tableless crc32_bzip2) check_input = 0xFC891918"
  by (simp add: crc32_bzip2_def crc_eval
      del: bbb_loop_unreflected.simps(2) bbb_loop_reflected.simps(2))

lemma crc32_bzip2_residue: "RESIDUE crc32_bzip2 = 0xC704DD7B"
  by (simp add: crc32_bzip2_def crc_eval
      del: bbb_loop_unreflected.simps(2) bbb_loop_reflected.simps(2))

lemma crc64_xz_check: "impl_calculate crc64_xz (tableless crc64_xz) check_input = 0x995DC9BBDF1939FA"
  by (simp add: crc64_xz_def crc_eval
      del: bbb_loop_unreflected.simps(2) bbb_loop_reflected.simps(2))

lemma crc64_xz_residue: "RESIDUE crc64_xz = 0x49958C9ABD7D353F"
  by (simp add: crc64_xz_def crc_eval
      del: bbb_loop_unreflected.simps(2) bbb_loop_reflected.simps(2))

text \<open>
  C1. For the seven models of the scenario table (CRC-8/SMBUS, CRC-8/SAE-J1850,
  CRC-16/KERMIT, CRC-16/IBM-SDLC, CRC-32/ISO-HDLC, CRC-32/BZIP2, CRC-64/XZ), \<open>calculate\<close>
  of the class \<open>parametric\<close> (the table-based mode) on the nine bytes \<open>"123456789"\<close>
  returns the listed check value, and the constant \<open>RESIDUE\<close> is the listed residue.
\<close>

theorem catalog_check:
  "impl_calculate crc8_smbus (table_based crc8_smbus) check_input = 0xF4
   \<and> RESIDUE crc8_smbus = 0x00
   \<and> impl_calculate crc8_sae_j1850 (table_based crc8_sae_j1850) check_input = 0x4B
   \<and> RESIDUE crc8_sae_j1850 = 0xC4
   \<and> impl_calculate crc16_kermit (table_based crc16_kermit) check_input = 0x2189
   \<and> RESIDUE crc16_kermit = 0x0000
   \<and> impl_calculate crc16_ibm_sdlc (table_based crc16_ibm_sdlc) check_input = 0x906E
   \<and> RESIDUE crc16_ibm_sdlc = 0xF0B8
   \<and> impl_calculate crc32_iso_hdlc (table_based crc32_iso_hdlc) check_input = 0xCBF43926
   \<and> RESIDUE crc32_iso_hdlc = 0xDEBB20E3
   \<and> impl_calculate crc32_bzip2 (table_based crc32_bzip2) check_input = 0xFC891918
   \<and> RESIDUE crc32_bzip2 = 0xC704DD7B
   \<and> impl_calculate crc64_xz (table_based crc64_xz) check_input = 0x995DC9BBDF1939FA
   \<and> RESIDUE crc64_xz = 0x49958C9ABD7D353F"
proof -
  have t8: "table_based c = tableless c" for c :: "8 cfg"
    by (rule table_based_tableless) simp
  have t16: "table_based c = tableless c" for c :: "16 cfg"
    by (rule table_based_tableless) simp
  have t32: "table_based c = tableless c" for c :: "32 cfg"
    by (rule table_based_tableless) simp
  have t64: "table_based c = tableless c" for c :: "64 cfg"
    by (rule table_based_tableless) simp
  show ?thesis
    by (simp only: t8 t16 t32 t64
        crc8_smbus_check crc8_smbus_residue crc8_sae_j1850_check crc8_sae_j1850_residue
        crc16_kermit_check crc16_kermit_residue crc16_ibm_sdlc_check crc16_ibm_sdlc_residue
        crc32_iso_hdlc_check crc32_iso_hdlc_residue crc32_bzip2_check crc32_bzip2_residue
        crc64_xz_check crc64_xz_residue simp_thms)
qed

section \<open>The residue of a codeword\<close>

text \<open>
  Feeding the bytes of a word \<open>d\<close>, most significant byte first into an unreflected
  register or least significant byte first into a reflected one, is the wide update
  with \<open>d\<close>. The CRC appended to the data cancels the register, so what a codeword
  leaves is \<open>width\<close> steps on the reflected or unreflected \<open>xor_out\<close>.
\<close>

lemma reverse_bits8_entry: "reverse_bits8 v = reverse_bits_entry (unat v)"
proof -
  have "unat v < 256" using unsigned_less[of v, where 'a=nat] by simp
  then show ?thesis
    by (simp add: reverse_bits8_def reverse_bits_lookup_table_def fold_fill_nth)
qed

lemmas codeword_eval = codeword_def crc_bytes_def reverse_bits8_entry reverse_bits_entry_def
  impl_update_def impl_input_reverser_def tableless_def updater_tableless_def
  core_tableless_update_def tableless_update_unreflected_def tableless_update_reflected_def
  TBL_CFG_def TBL_ACTUAL_POLY_def

lemma wide_step_unreflected:
  fixes r d :: "'a::len word"
  assumes s: "s + 8 + n = LENGTH('a)"
  shows "bbb_update_unreflected poly
           (bbb_loop_unreflected n poly (r XOR push_bit (s + 8) (drop_bit (s + 8) d)))
           (ucast (drop_bit s d)) 8
         = bbb_loop_unreflected (n + 8) poly (r XOR push_bit s (drop_bit s d))"
proof -
  let ?b = "ucast (drop_bit s d) :: uint8"
  let ?mid = "push_bit s (ucast ?b) :: 'a word"
  have split: "push_bit s (drop_bit s d) = push_bit (s + 8) (drop_bit (s + 8) d) XOR ?mid"
  proof (rule bit_eqI)
    fix i
    assume "possible_bit TYPE('a word) i"
    then have i: "i < LENGTH('a)" by (simp add: possible_bit_word)
    show "bit (push_bit s (drop_bit s d)) i
          = bit (push_bit (s + 8) (drop_bit (s + 8) d) XOR ?mid) i"
    proof (cases "i < s")
      case True
      then show ?thesis by (simp add: bit_simps)
    next
      case False
      then have si: "s + (i - s) = i" by simp
      show ?thesis
      proof (cases "i < s + 8")
        case True
        with False have "i - s < 8" by simp
        with True False i si show ?thesis by (simp add: bit_simps)
      next
        case False
        then have "s + 8 + (i - (s + 8)) = i" "\<not> i - s < 8" "s \<le> i" "s + 8 \<le> i"
          by simp_all
        with False i si show ?thesis by (simp add: bit_simps)
      qed
    qed
  qed
  have tk: "take_bit (LENGTH('a) - n) ?mid = ?mid"
  proof (rule bit_eqI)
    fix i
    show "bit (take_bit (LENGTH('a) - n) ?mid) i = bit ?mid i"
    proof (cases "i < LENGTH('a) - n")
      case True
      then show ?thesis by (simp add: bit_simps)
    next
      case False
      then have "\<not> i - s < 8" using s by simp
      with False show ?thesis by (simp add: bit_simps)
    qed
  qed
  have "n \<le> LENGTH('a)" using s by simp
  then have "bbb_loop_unreflected n poly ?mid = push_bit n ?mid"
    using tk by (rule bbb_loop_unreflected_shift)
  also have "\<dots> = push_bit (n + s) (ucast ?b)"
    by simp
  also have "n + s = LENGTH('a) - 8"
    using s by simp
  finally have mid: "bbb_loop_unreflected n poly ?mid = push_bit (LENGTH('a) - 8) (ucast ?b)" .
  have "bbb_loop_unreflected (n + 8) poly (r XOR push_bit s (drop_bit s d))
        = bbb_loop_unreflected 8 poly
            (bbb_loop_unreflected n poly
               ((r XOR push_bit (s + 8) (drop_bit (s + 8) d)) XOR ?mid))"
    by (simp only: bbb_loop_unreflected_add split xor.assoc)
  also have "\<dots> = bbb_loop_unreflected 8 poly
            (bbb_loop_unreflected n poly (r XOR push_bit (s + 8) (drop_bit (s + 8) d))
             XOR push_bit (LENGTH('a) - 8) (ucast ?b))"
    by (simp only: bbb_loop_unreflected_xor mid)
  finally show ?thesis
    by (simp add: bbb_update_unreflected_def)
qed

lemma wide_step_reflected:
  fixes r d :: "'a::len word"
  assumes s: "n + 8 \<le> LENGTH('a)"
  shows "bbb_update_reflected poly
           (bbb_loop_reflected n poly (r XOR take_bit n d)) (ucast (drop_bit n d)) 8
         = bbb_loop_reflected (n + 8) poly (r XOR take_bit (n + 8) d)"
proof -
  let ?b = "ucast (drop_bit n d) :: uint8"
  let ?mid = "push_bit n (ucast ?b) :: 'a word"
  have split: "take_bit (n + 8) d = take_bit n d XOR ?mid"
  proof (rule bit_eqI)
    fix i
    assume "possible_bit TYPE('a word) i"
    then have i: "i < LENGTH('a)" by (simp add: possible_bit_word)
    show "bit (take_bit (n + 8) d) i = bit (take_bit n d XOR ?mid) i"
    proof (cases "i < n")
      case True
      then show ?thesis by (simp add: bit_simps)
    next
      case False
      then have ni: "n + (i - n) = i" by simp
      show ?thesis
      proof (cases "i < n + 8")
        case True
        with False have "i - n < 8" by simp
        with True False i ni show ?thesis by (simp add: bit_simps)
      next
        case False
        then have "\<not> i - n < 8" "\<not> i < n" by simp_all
        with False i show ?thesis by (simp add: bit_simps)
      qed
    qed
  qed
  have tk: "take_bit n ?mid = 0"
    by (rule bit_eqI) (simp add: bit_simps)
  have "bbb_loop_reflected n poly ?mid = drop_bit n ?mid"
    using tk by (rule bbb_loop_reflected_shift)
  also have "\<dots> = ucast ?b"
  proof (rule bit_eqI)
    fix i
    assume "possible_bit TYPE('a word) i"
    then have i: "i < LENGTH('a)" by (simp add: possible_bit_word)
    show "bit (drop_bit n ?mid) i = bit (ucast ?b :: 'a word) i"
    proof (cases "i < 8")
      case True
      then have "n + i < LENGTH('a)" using s by simp
      with True i show ?thesis by (simp add: bit_simps)
    next
      case False
      with i show ?thesis by (simp add: bit_simps)
    qed
  qed
  finally have mid: "bbb_loop_reflected n poly ?mid = ucast ?b" .
  have "bbb_loop_reflected (n + 8) poly (r XOR take_bit (n + 8) d)
        = bbb_loop_reflected 8 poly (bbb_loop_reflected n poly ((r XOR take_bit n d) XOR ?mid))"
    by (simp only: bbb_loop_reflected_add split xor.assoc)
  also have "\<dots> = bbb_loop_reflected 8 poly
            (bbb_loop_reflected n poly (r XOR take_bit n d) XOR ucast ?b)"
    by (simp only: bbb_loop_reflected_xor mid)
  finally show ?thesis
    by (simp add: bbb_update_reflected_def)
qed


lemma wide_feed_unreflected:
  fixes r d :: "'a::len word"
  assumes len: "8 * k = LENGTH('a)"
  shows "fold (\<lambda>p crc. bbb_update_unreflected poly crc p 8)
           (map (\<lambda>i. ucast (drop_bit (i * 8) d)) (rev [0..<k])) r
         = bbb_loop_unreflected LENGTH('a) poly (r XOR d)"
proof -
  let ?F = "\<lambda>p crc. bbb_update_unreflected poly crc p 8"
  let ?f = "\<lambda>i. ucast (drop_bit (i * 8) d) :: uint8"
  have "fold ?F (map ?f (rev [k - j..<k])) r
        = bbb_loop_unreflected (8 * j) poly
            (r XOR push_bit (8 * (k - j)) (drop_bit (8 * (k - j)) d))" if "j \<le> k" for j
    using that
  proof (induction j)
    case 0
    have "push_bit (8 * k) (drop_bit (8 * k) d) = 0"
      unfolding len by (rule bit_eqI) (simp add: bit_simps)
    then show ?case by simp
  next
    case (Suc j)
    then have j: "j < k" by simp
    then have up: "[k - Suc j..<k] = (k - Suc j) # [k - j..<k]"
      by (simp add: upt_conv_Cons Suc_diff_Suc)
    let ?s = "8 * (k - Suc j)"
    have s8: "?s + 8 = 8 * (k - j)" using j by simp
    have sum: "?s + 8 + 8 * j = LENGTH('a)" using j len by simp
    have mul: "(k - Suc j) * 8 = ?s" by simp
    have "fold ?F (map ?f (rev [k - Suc j..<k])) r
          = ?F (?f (k - Suc j)) (fold ?F (map ?f (rev [k - j..<k])) r)"
      unfolding up by simp
    also have "\<dots> = ?F (ucast (drop_bit ?s d))
                    (bbb_loop_unreflected (8 * j) poly
                       (r XOR push_bit (?s + 8) (drop_bit (?s + 8) d)))"
      using Suc.IH j by (simp only: mul s8)
    also have "\<dots> = bbb_loop_unreflected (8 * j + 8) poly (r XOR push_bit ?s (drop_bit ?s d))"
      using sum by (rule wide_step_unreflected)
    finally show ?case by (simp add: add.commute)
  qed
  from this[of k] show ?thesis by (simp add: len)
qed

lemma wide_feed_reflected:
  fixes r d :: "'a::len word"
  assumes len: "8 * k = LENGTH('a)"
  shows "fold (\<lambda>p crc. bbb_update_reflected poly crc p 8)
           (map (\<lambda>i. ucast (drop_bit (i * 8) d)) [0..<k]) r
         = bbb_loop_reflected LENGTH('a) poly (r XOR d)"
proof -
  let ?F = "\<lambda>p crc. bbb_update_reflected poly crc p 8"
  let ?f = "\<lambda>i. ucast (drop_bit (i * 8) d) :: uint8"
  have "fold ?F (map ?f [0..<j]) r = bbb_loop_reflected (8 * j) poly (r XOR take_bit (8 * j) d)"
    if "j \<le> k" for j
    using that
  proof (induction j)
    case 0
    then show ?case by simp
  next
    case (Suc j)
    then have j: "j < k" by simp
    have le: "8 * j + 8 \<le> LENGTH('a)" using j len by simp
    have mul: "j * 8 = 8 * j" by simp
    have "fold ?F (map ?f [0..<Suc j]) r = ?F (?f j) (fold ?F (map ?f [0..<j]) r)"
      by simp
    also have "\<dots> = ?F (ucast (drop_bit (8 * j) d))
                    (bbb_loop_reflected (8 * j) poly (r XOR take_bit (8 * j) d))"
      using Suc.IH j by (simp only: mul)
    also have "\<dots> = bbb_loop_reflected (8 * j + 8) poly (r XOR take_bit (8 * j + 8) d)"
      using le by (rule wide_step_reflected)
    finally show ?case by (simp add: add.commute)
  qed
  from this[of k] have "fold ?F (map ?f [0..<k]) r
      = bbb_loop_reflected LENGTH('a) poly (r XOR take_bit LENGTH('a) d)"
    by (simp add: len)
  then show ?thesis by simp
qed

lemma width_div_8: "LENGTH('a::len) \<in> {8, 16, 32, 64} \<Longrightarrow> 8 * (LENGTH('a) div 8) = LENGTH('a)"
  by auto

lemma xor_cancel_left: "a XOR (a XOR b) = (b :: 'a::len word)"
  by (simp add: xor.assoc[symmetric])

lemma impl_update_tableless_append:
  "impl_update c (tableless c) this (A @ B)
   = impl_update c (tableless c) (impl_update c (tableless c) this A) B"
  by (simp add: impl_update_def tableless_def impl_input_reverser_append[OF updater_append(1)])

text \<open>When the register convention is that of the input, the register itself holds the
  constant \<open>RESIDUE\<close> after a codeword, whatever \<open>REF_OUT\<close> is.\<close>

lemma register_after_codeword:
  fixes c :: "'a::len cfg"
  assumes w: "LENGTH('a) \<in> {8, 16, 32, 64}" and same: "REF_REG c = REF_IN c"
  shows "crc_reg (impl_update c (tableless c) (impl_init c) (codeword c (tableless c) M))
         = RESIDUE c"
proof -
  note len = width_div_8[OF w]
  define this where "this = impl_update c (tableless c) (impl_init c) M"
  define X where "X = conditional_reflect (REF_REG c \<noteq> REF_OUT c) (XOR_OUT c)"
  define D where "D = crc_reg this XOR X"
  have D: "(if REF_IN c \<noteq> REF_OUT c then reverse_bits (impl_final c this)
            else impl_final c this) = D"
    using same
    by (simp add: impl_final_def impl_residue_def conditional_reflect_def D_def X_def
        reverse_bits_eq[OF w] word_reverse_xor)
  have cb: "crc_bytes c (impl_final c this) =
            (if REF_IN c then map (\<lambda>i. ucast (drop_bit (i * 8) D)) [0..<LENGTH('a) div 8]
             else map (\<lambda>i. ucast (drop_bit (i * 8) D)) (rev [0..<LENGTH('a) div 8]))"
    by (simp only: crc_bytes_def Let_def D)
  have cancel: "crc_reg this XOR D = X"
    by (simp add: D_def xor_cancel_left)
  have "impl_update c (tableless c) (impl_init c) (codeword c (tableless c) M)
        = impl_update c (tableless c) this
            (crc_bytes c (impl_final c this))"
    by (simp only: codeword_def impl_update_tableless_append this_def[symmetric])
  also have "crc_reg \<dots> = RESIDUE c"
  proof (cases "REF_IN c")
    case True
    have "crc_reg (impl_update c (tableless c) this (crc_bytes c (impl_final c this)))
          = fold (\<lambda>p crc. bbb_update_reflected (ACTUAL_POLY c) crc p 8)
              (map (\<lambda>i. ucast (drop_bit (i * 8) D)) [0..<LENGTH('a) div 8]) (crc_reg this)"
      using True same by (simp add: impl_update_tableless cb)
    also have "\<dots> = bbb_loop_reflected LENGTH('a) (ACTUAL_POLY c) (crc_reg this XOR D)"
      using len by (rule wide_feed_reflected)
    finally show ?thesis
      using True same
      by (simp add: cancel RESIDUE_def residue_const_def core_bbb_update_wide_def
          bbb_update_wide_reflected_def X_def conditional_reflect_def Let_def)
  next
    case False
    have "crc_reg (impl_update c (tableless c) this (crc_bytes c (impl_final c this)))
          = fold (\<lambda>p crc. bbb_update_unreflected (ACTUAL_POLY c) crc p 8)
              (map (\<lambda>i. ucast (drop_bit (i * 8) D)) (rev [0..<LENGTH('a) div 8])) (crc_reg this)"
      using False same by (simp add: impl_update_tableless cb)
    also have "\<dots> = bbb_loop_unreflected LENGTH('a) (ACTUAL_POLY c) (crc_reg this XOR D)"
      using len by (rule wide_feed_unreflected)
    finally show ?thesis
      using False same
      by (simp add: cancel RESIDUE_def residue_const_def core_bbb_update_wide_def
          bbb_update_wide_unreflected_def X_def conditional_reflect_def Let_def)
  qed
  finally show ?thesis .
qed

lemma RESIDUE_flip:
  fixes c :: "'a::len cfg"
  assumes w: "LENGTH('a) \<in> {8, 16, 32, 64}"
  shows "RESIDUE (c\<lparr>REF_REG := \<not> REF_REG c\<rparr>) = RESIDUE c"
proof -
  have r: "bbb_loop_reflected n (word_reverse p) x = word_reverse (bbb_loop_unreflected n p (word_reverse x))"
    for n and p x :: "'a word"
    using bbb_loop_reflected_reverse[of n p "word_reverse x"] by simp
  show ?thesis
    by (simp add: RESIDUE_def residue_const_def core_bbb_update_wide_def
        bbb_update_wide_reflected_def bbb_update_wide_unreflected_def Let_def
        conditional_reflect_def reverse_bits_eq[OF w] ACTUAL_POLY_def r
        bbb_loop_reflected_reverse)
qed

lemma codeword_flip:
  fixes c :: "'a::len cfg"
  assumes w: "LENGTH('a) \<in> {8, 16, 32, 64}"
  shows "codeword (c\<lparr>REF_REG := \<not> REF_REG c\<rparr>) (tableless (c\<lparr>REF_REG := \<not> REF_REG c\<rparr>)) M
         = codeword c (tableless c) M"
  using impl_calculate_tableless_flip[OF w, of c M]
  by (simp add: codeword_def crc_bytes_def impl_calculate_def)

lemma residue_law_tableless:
  fixes c :: "'a::len cfg"
  assumes w: "LENGTH('a) \<in> {8, 16, 32, 64}"
  shows "impl_residue c (impl_update c (tableless c) (impl_init c) (codeword c (tableless c) M))
         = (if REF_IN c = REF_OUT c then RESIDUE c else word_reverse (RESIDUE c))"
proof (cases "REF_REG c = REF_IN c")
  case True
  then show ?thesis
    by (auto simp add: impl_residue_def register_after_codeword[OF w True]
        conditional_reflect_def reverse_bits_eq[OF w])
next
  case False
  let ?c = "c\<lparr>REF_REG := \<not> REF_REG c\<rparr>"
  have aligned: "crc_reg (impl_update ?c (tableless ?c) (impl_init ?c)
                   (codeword ?c (tableless ?c) M)) = RESIDUE ?c"
    using False by (intro register_after_codeword[OF w]) auto
  have init: "impl_init c = \<lparr>crc_reg = word_reverse (crc_reg (impl_init ?c))\<rparr>"
    by (simp add: impl_init_def ACTUAL_INIT_def conditional_reflect_def reverse_bits_eq[OF w])
  have reg: "crc_reg (impl_update c (tableless c) (impl_init c) W)
             = word_reverse (crc_reg (impl_update ?c (tableless ?c) (impl_init ?c) W))" for W
    unfolding init
    using impl_update_tableless_flip[OF w, of ?c "crc_reg (impl_init ?c)" W]
    by (simp add: impl_init_def)
  have cw: "codeword c (tableless c) M = codeword ?c (tableless ?c) M"
    by (rule codeword_flip[OF w, symmetric])
  have "crc_reg (impl_update c (tableless c) (impl_init c) (codeword c (tableless c) M))
        = word_reverse (RESIDUE c)"
    by (simp only: reg cw aligned RESIDUE_flip[OF w])
  with False show ?thesis
    by (auto simp add: impl_residue_def conditional_reflect_def reverse_bits_eq[OF w])
qed

text \<open>
  The residue law as the code has it, in the table-based mode: the register that a
  codeword leaves, read through \<open>residue()\<close>, is the constant \<open>RESIDUE\<close> when the input
  and output reflections agree (all models of the catalogue), and the bit reversal of
  \<open>RESIDUE\<close> when they differ.
\<close>

lemma residue_of_codeword:
  fixes c :: "'a::len cfg"
  assumes w: "LENGTH('a) \<in> {8, 16, 32, 64}"
  shows "impl_residue c (impl_update c (table_based c) (impl_init c) (codeword c (table_based c) M))
         = (if REF_IN c = REF_OUT c then RESIDUE c else word_reverse (RESIDUE c))"
  using residue_law_tableless[OF w]
  by (simp add: table_based_tableless[OF width_ge_8[OF w]])

text \<open>
  C4. The claim: for every model and every input, the register after a codeword, read
  through \<open>residue()\<close>, is the constant \<open>RESIDUE\<close>. In the model
  \<open>crc::parametric<8, 0x07, 0x00, 0x01, false, true>\<close> the reflections of input and
  output differ. For the empty input its CRC is \<open>0x01\<close> and the codeword is the single
  byte \<open>0x80\<close>; \<open>residue()\<close> after the codeword is \<open>0x91\<close>, for the empty input and for
  the input \<open>"123456789"\<close>, while \<open>RESIDUE\<close> is \<open>0x89\<close>.
\<close>

theorem residue_law_crossed_endian:
  "impl_calculate crc8_crossed (table_based crc8_crossed) [] = 0x01
   \<and> codeword crc8_crossed (table_based crc8_crossed) [] = [0x80]
   \<and> impl_residue crc8_crossed
         (impl_update crc8_crossed (table_based crc8_crossed) (impl_init crc8_crossed)
            (codeword crc8_crossed (table_based crc8_crossed) [])) = 0x91
   \<and> impl_residue crc8_crossed
         (impl_update crc8_crossed (table_based crc8_crossed) (impl_init crc8_crossed)
            (codeword crc8_crossed (table_based crc8_crossed) check_input)) = 0x91
   \<and> RESIDUE crc8_crossed = 0x89"
proof -
  have t: "table_based crc8_crossed = tableless crc8_crossed"
    by (rule table_based_tableless) simp
  have 1: "impl_calculate crc8_crossed (tableless crc8_crossed) [] = 0x01"
    by (simp add: crc8_crossed_def codeword_eval crc_eval
        del: bbb_loop_unreflected.simps(2) bbb_loop_reflected.simps(2))
  have 2: "codeword crc8_crossed (tableless crc8_crossed) [] = [0x80]"
    by (simp add: crc8_crossed_def codeword_eval crc_eval
        del: bbb_loop_unreflected.simps(2) bbb_loop_reflected.simps(2))
  have 3: "impl_residue crc8_crossed
             (impl_update crc8_crossed (tableless crc8_crossed) (impl_init crc8_crossed)
                (codeword crc8_crossed (tableless crc8_crossed) [])) = 0x91"
    by (simp add: crc8_crossed_def codeword_eval crc_eval
        del: bbb_loop_unreflected.simps(2) bbb_loop_reflected.simps(2))
  have 4: "impl_residue crc8_crossed
             (impl_update crc8_crossed (tableless crc8_crossed) (impl_init crc8_crossed)
                (codeword crc8_crossed (tableless crc8_crossed) check_input)) = 0x91"
    by (simp add: crc8_crossed_def codeword_eval crc_eval
        del: bbb_loop_unreflected.simps(2) bbb_loop_reflected.simps(2))
  have 5: "RESIDUE crc8_crossed = 0x89"
    by (simp add: crc8_crossed_def reverse_bits8_entry reverse_bits_entry_def crc_eval
        del: bbb_loop_unreflected.simps(2) bbb_loop_reflected.simps(2))
  show ?thesis
    unfolding t using 1 2 3 4 5 by (intro conjI)
qed

end
